theory Spec2Isabelle
  imports Main "HOL-Library.AList"
begin

section \<open>JSON values and JavaScript objects\<close>

text \<open>
  A value as \<^verbatim>\<open>JSON.parse\<close> delivers it and \<^verbatim>\<open>JSON.stringify\<close> writes it. An object
  is the list of its properties in property order; numbers are the integers. The value
  \<^verbatim>\<open>undefined\<close> (a property that is absent) is \<open>None\<close> of \<open>json option\<close>.
\<close>

datatype json =
    JNull
  | JBool bool
  | JNum int
  | JStr string
  | JArr "json list"
  | JObj "(string \<times> json) list"

type_synonym fields = "(string \<times> json) list"

text \<open>JavaScript truthiness, as \<^verbatim>\<open>if (x)\<close>, \<^verbatim>\<open>!x\<close> and \<^verbatim>\<open>x || y\<close> test it.\<close>

fun truthy :: "json \<Rightarrow> bool" where
  "truthy JNull = False"
| "truthy (JBool b) = b"
| "truthy (JNum n) = (n \<noteq> 0)"
| "truthy (JStr s) = (s \<noteq> [])"
| "truthy (JArr xs) = True"
| "truthy (JObj fs) = True"

fun truthy_opt :: "json option \<Rightarrow> bool" where
  "truthy_opt None = False"
| "truthy_opt (Some v) = truthy v"

text \<open>
  Reading a named property \<^verbatim>\<open>v.k\<close> of a value that is not \<^verbatim>\<open>null\<close>: the property of
  an object, \<^verbatim>\<open>undefined\<close> on every other value (the names the code reads are never
  \<^verbatim>\<open>length\<close> or an index). On \<^verbatim>\<open>null\<close> the read raises a TypeError, which the callers
  test for before they use \<open>property\<close>.
\<close>

fun property :: "json \<Rightarrow> string \<Rightarrow> json option" where
  "property (JObj fs) k = map_of fs k"
| "property v k = None"

text \<open>Decimal text of an integer, as string conversion writes a number.\<close>

definition digit_char :: "nat \<Rightarrow> char" where
  "digit_char d = ''0123456789'' ! d"

fun digits :: "nat \<Rightarrow> string" where
  "digits n = (if n < 10 then [digit_char n] else digits (n div 10) @ [digit_char (n mod 10)])"

declare digits.simps [simp del]

definition show_int :: "int \<Rightarrow> string" where
  "show_int i = (if i < 0 then CHR ''-'' # digits (nat (- i)) else digits (nat i))"

fun join_comma :: "string list \<Rightarrow> string" where
  "join_comma [] = []"
| "join_comma [s] = s"
| "join_comma (s # t # ss) = s @ '','' @ join_comma (t # ss)"

text \<open>String conversion of a value, as a template literal \<^verbatim>\<open>`${v}`\<close> performs it.\<close>

fun js_string :: "json \<Rightarrow> string" where
  "js_string JNull = ''null''"
| "js_string (JBool b) = (if b then ''true'' else ''false'')"
| "js_string (JNum n) = show_int n"
| "js_string (JStr s) = s"
| "js_string (JArr xs) = join_comma (map (\<lambda>x. if x = JNull then [] else js_string x) xs)"
| "js_string (JObj fs) = ''[object Object]''"

fun js_string_opt :: "json option \<Rightarrow> string" where
  "js_string_opt None = ''undefined''"
| "js_string_opt (Some v) = js_string v"

text \<open>
  The own properties of an object are listed with the array indices first, in ascending
  numeric order, and the other string keys after them, in the order in which they were
  created. An array index is a key that is the decimal text of an integer from 0 to
  \<^verbatim>\<open>4294967294\<close>, without sign or leading zero.
\<close>

definition digit_of :: "char \<Rightarrow> nat option" where
  "digit_of ch =
     map_of [(CHR ''0'', 0), (CHR ''1'', 1), (CHR ''2'', 2), (CHR ''3'', 3), (CHR ''4'', 4),
             (CHR ''5'', 5), (CHR ''6'', 6), (CHR ''7'', 7), (CHR ''8'', 8), (CHR ''9'', 9)] ch"

fun digits_value :: "nat \<Rightarrow> string \<Rightarrow> nat option" where
  "digits_value a [] = Some a"
| "digits_value a (ch # k) =
     (case digit_of ch of None \<Rightarrow> None | Some d \<Rightarrow> digits_value (10 * a + d) k)"

definition array_index :: "string \<Rightarrow> nat option" where
  "array_index k =
     (case digits_value 0 k of
        None \<Rightarrow> None
      | Some n \<Rightarrow> if digits n = k \<and> n < 4294967295 then Some n else None)"

text \<open>
  \<open>key_before k k'\<close>: the key \<open>k\<close> may stand before the key \<open>k'\<close> in an object. A list of
  properties is a JavaScript object, \<open>js_object\<close>, when its keys are distinct and stand in
  property order; every object that the runtime builds is one.
\<close>

definition key_before :: "string \<Rightarrow> string \<Rightarrow> bool" where
  "key_before k k' =
     (case array_index k of
        Some n \<Rightarrow> (case array_index k' of Some n' \<Rightarrow> n < n' | None \<Rightarrow> True)
      | None \<Rightarrow> (case array_index k' of Some n' \<Rightarrow> False | None \<Rightarrow> True))"

definition js_object :: "(string \<times> 'v) list \<Rightarrow> bool" where
  "js_object obj \<longleftrightarrow> distinct (map fst obj) \<and> sorted_wrt key_before (map fst obj)"

text \<open>
  An object literal is built property by property, \<open>set_property\<close>: a key that is already
  there keeps its place and takes the new value; a new array index goes after the smaller
  indices and before everything else; any other new key goes to the end. A spread
  \<^verbatim>\<open>...src\<close> sets the properties of \<open>src\<close> from first to last. A property may hold
  \<^verbatim>\<open>undefined\<close>; \<^verbatim>\<open>JSON.stringify\<close> leaves such a property out.
\<close>

type_synonym literal = "(string \<times> json option) list"

definition index_before :: "nat \<Rightarrow> string \<times> 'v \<Rightarrow> bool" where
  "index_before n entry = (case array_index (fst entry) of Some n' \<Rightarrow> n' < n | None \<Rightarrow> False)"

definition set_property :: "string \<Rightarrow> 'v \<Rightarrow> (string \<times> 'v) list \<Rightarrow> (string \<times> 'v) list" where
  "set_property k v obj =
     (if map_of obj k \<noteq> None then AList.update k v obj
      else case array_index k of
             None \<Rightarrow> obj @ [(k, v)]
           | Some n \<Rightarrow> takeWhile (index_before n) obj @ [(k, v)] @ dropWhile (index_before n) obj)"

definition spread :: "(string \<times> 'v) list \<Rightarrow> (string \<times> 'v) list \<Rightarrow> (string \<times> 'v) list" where
  "spread src tgt = fold (\<lambda>(k, v). set_property k v) src tgt"

text \<open>The properties of an object under array indices, and those under other keys.\<close>

definition index_part :: "(string \<times> 'v) list \<Rightarrow> (string \<times> 'v) list" where
  "index_part obj = filter (\<lambda>entry. array_index (fst entry) \<noteq> None) obj"

definition name_part :: "(string \<times> 'v) list \<Rightarrow> (string \<times> 'v) list" where
  "name_part obj = filter (\<lambda>entry. array_index (fst entry) = None) obj"

definition stringify :: "literal \<Rightarrow> fields" where
  "stringify lit = List.map_filter (\<lambda>(k, v). map_option (Pair k) v) lit"

section \<open>The server: command registry and dispatcher\<close>

text \<open>
  A handler is called with the parameters of the message. It returns a value, given by
  the own properties that the spread \<^verbatim>\<open>...result\<close> copies, in property order (a property
  may hold \<^verbatim>\<open>undefined\<close>; \<^verbatim>\<open>null\<close>, \<^verbatim>\<open>undefined\<close>, a number and a boolean have none), or it
  throws (or rejects with) an error that has a message. A registered tool is the record
  that \<^verbatim>\<open>registerTool\<close> stores.
\<close>

datatype outcome = Returns literal | Throws string

record tool =
  name :: string
  handler :: "json \<Rightarrow> outcome"
  schema :: json

type_synonym registry = "string \<rightharpoonup> tool"

definition registerTool :: "string \<Rightarrow> (json \<Rightarrow> outcome) \<Rightarrow> json \<Rightarrow> registry \<Rightarrow> registry" where
  "registerTool n h sch tools = tools(n \<mapsto> \<lparr>name = n, handler = h, schema = sch\<rparr>)"

text \<open>The response of the outer \<^verbatim>\<open>catch\<close> of \<^verbatim>\<open>handleMessage\<close>: no \<^verbatim>\<open>id\<close>.\<close>

definition parse_error_response :: "string \<Rightarrow> string \<Rightarrow> fields" where
  "parse_error_response now msg =
     stringify [(''error'', Some (JStr (''Error parsing message: '' @ msg))),
                (''timestamp'', Some (JStr now))]"

text \<open>
  \<^verbatim>\<open>handleMessage(client, message)\<close>. The argument \<open>message\<close> is what \<^verbatim>\<open>JSON.parse\<close>
  makes of the payload: \<open>Inl msg\<close> when it throws a SyntaxError with that message,
  \<open>Inr data\<close> when it returns. \<open>now\<close> is \<^verbatim>\<open>new Date().toISOString()\<close>. The result is
  the object that the one \<^verbatim>\<open>client.send\<close> of the call writes. Reading \<^verbatim>\<open>data.command\<close>
  of the payload \<^verbatim>\<open>null\<close> raises a TypeError, which the outer \<^verbatim>\<open>catch\<close> answers like a
  payload that does not parse.
\<close>

definition handleMessage :: "registry \<Rightarrow> string \<Rightarrow> string + json \<Rightarrow> fields" where
  "handleMessage tools now message =
     (case message of
        Inl msg \<Rightarrow> parse_error_response now msg
      | Inr data \<Rightarrow>
          if data = JNull
          then parse_error_response now ''Cannot read properties of null (reading 'command')''
          else if \<not> truthy_opt (property data ''command'')
          then stringify [(''id'', property data ''id''),
                          (''error'', Some (JStr ''Missing command'')),
                          (''timestamp'', Some (JStr now))]
          else
            (case (case property data ''command'' of
                     Some (JStr c) \<Rightarrow> tools c
                   | _ \<Rightarrow> None) of
               None \<Rightarrow>
                 stringify [(''id'', property data ''id''),
                            (''error'', Some (JObj
                               [(''code'', JStr ''unknown_command''),
                                (''message'', JStr (''Unknown command: '' @ js_string_opt (property data ''command'')))])),
                            (''timestamp'', Some (JStr now))]
             | Some t \<Rightarrow>
                 (case handler t (case property data ''params'' of
                                    Some p \<Rightarrow> if truthy p then p else JObj []
                                  | None \<Rightarrow> JObj []) of
                    Returns result \<Rightarrow>
                      stringify (set_property ''timestamp'' (Some (JStr now))
                        (spread result [(''id'', property data ''id'')]))
                  | Throws msg \<Rightarrow>
                      stringify [(''id'', property data ''id''),
                                 (''error'', Some (JStr (''Error executing command: '' @ msg))),
                                 (''timestamp'', Some (JStr now))])))"


subsection \<open>Registries used as concrete inputs\<close>

text \<open>The \<^verbatim>\<open>echo\<close> command returns \<^verbatim>\<open>{value: params.value}\<close>.\<close>

definition echo_handler :: "json \<Rightarrow> outcome" where
  "echo_handler params = Returns [(''value'', property params ''value'')]"

definition echo_tools :: registry where
  "echo_tools = registerTool ''echo'' echo_handler (JObj []) Map.empty"

text \<open>A command whose result carries an \<^verbatim>\<open>id\<close> of its own: \<^verbatim>\<open>{success: true, id: 'task-7'}\<close>.\<close>

definition task_handler :: "json \<Rightarrow> outcome" where
  "task_handler params = Returns [(''success'', Some (JBool True)), (''id'', Some (JStr ''task-7''))]"

definition task_tools :: registry where
  "task_tools = registerTool ''get-task'' task_handler (JObj []) Map.empty"

text \<open>
  A command whose result has an array index among its keys and a property that holds
  \<^verbatim>\<open>undefined\<close>: \<^verbatim>\<open>{b: 1, 0: 'a', note: undefined}\<close>, an object with the properties
  \<^verbatim>\<open>0\<close>, \<^verbatim>\<open>b\<close>, \<^verbatim>\<open>note\<close> in this order.
\<close>

definition lookup_handler :: "json \<Rightarrow> outcome" where
  "lookup_handler params = Returns [(''0'', Some (JStr ''a'')), (''b'', Some (JNum 1)), (''note'', None)]"

definition lookup_tools :: registry where
  "lookup_tools = registerTool ''lookup'' lookup_handler (JObj []) Map.empty"
section \<open>The context manager\<close>

text \<open>
  A \<^verbatim>\<open>Date\<close> object is the instant it holds, in milliseconds, or is an Invalid Date
  (\<open>None\<close>). \<^verbatim>\<open>toISOString\<close> raises a RangeError on an Invalid Date. The text that
  \<^verbatim>\<open>toISOString\<close> writes for an instant and the instant that \<^verbatim>\<open>new Date(text)\<close> reads
  belong to the JavaScript runtime: the functions below take them as the parameters
  \<open>toISO\<close> and \<open>newDate\<close>.
\<close>

type_synonym date = "int option"

definition toISOString :: "(int \<Rightarrow> string) \<Rightarrow> date \<Rightarrow> string + string" where
  "toISOString toISO d = (case d of None \<Rightarrow> Inl ''Invalid time value'' | Some t \<Rightarrow> Inr (toISO t))"

record step =
  step_name :: string
  step_timestamp :: date
  step_data :: json
  step_index :: nat

record snapshot =
  snap_timestamp :: date
  snap_data :: fields

record "context" =
  ctx_id :: string
  created :: date
  updated :: date
  ctx_data :: fields
  history :: "snapshot list"
  steps :: "step list"

record tombstone =
  tomb_id :: string
  deleted :: date
  tomb_data :: "context"

record manager =
  contexts :: "string \<rightharpoonup> context"
  activeContext :: "string option"
  contextHistory :: "tombstone list"
  maxHistoryLength :: nat

text \<open>The manager that the constructor builds.\<close>

definition new_manager :: manager where
  "new_manager = \<lparr>contexts = Map.empty, activeContext = None, contextHistory = [], maxHistoryLength = 10\<rparr>"

text \<open>
  A context identifier argument: \<open>None\<close> when it is omitted. An omitted and an empty
  identifier are falsy.
\<close>

fun falsy_id :: "string option \<Rightarrow> bool" where
  "falsy_id None = True"
| "falsy_id (Some s) = (s = [])"

definition getContext :: "manager \<Rightarrow> string option \<Rightarrow> context option" where
  "getContext m contextId =
     (let contextId = (if falsy_id contextId \<and> \<not> falsy_id (activeContext m)
                       then activeContext m else contextId)
      in if falsy_id contextId then None else contexts m (the contextId))"

text \<open>
  The body of \<^verbatim>\<open>updateContext\<close> once the context is found: the snapshot is pushed, the
  oldest one is shifted out when the history is longer than the maximum, the data is
  merged or replaced. \<open>t1\<close> and \<open>t2\<close> are the two readings \<^verbatim>\<open>new Date()\<close> of the call.
\<close>

definition update_found :: "nat \<Rightarrow> int \<Rightarrow> int \<Rightarrow> fields \<Rightarrow> bool \<Rightarrow> context \<Rightarrow> context" where
  "update_found maxLen t1 t2 d merge c =
     (let pushed = history c @ [\<lparr>snap_timestamp = Some t1, snap_data = spread (ctx_data c) []\<rparr>];
          limited = (if length pushed > maxLen then tl pushed else pushed)
      in c\<lparr>history := limited,
            ctx_data := (if merge then spread d (spread (ctx_data c) []) else spread d []),
            updated := Some t2\<rparr>)"

text \<open>
  \<^verbatim>\<open>createContext(contextId, initialData)\<close>. \<open>fresh\<close> is the identifier that is generated
  when none is given (\<^verbatim>\<open>ctx_<time>_<random>\<close>). An identifier that exists is handed to
  \<^verbatim>\<open>updateContext(contextId, initialData)\<close>, which finds it and merges.
\<close>

definition createContext ::
  "string \<Rightarrow> int \<Rightarrow> int \<Rightarrow> string option \<Rightarrow> fields \<Rightarrow> manager \<Rightarrow> manager \<times> string" where
  "createContext fresh t1 t2 contextId initialData m =
     (let cid = (if falsy_id contextId then ''ctx_'' @ fresh else the contextId)
      in case contexts m cid of
           Some c \<Rightarrow>
             (m\<lparr>contexts := (contexts m)(cid \<mapsto> update_found (maxHistoryLength m) t1 t2 initialData True c)\<rparr>, cid)
         | None \<Rightarrow>
             (m\<lparr>contexts := (contexts m)(cid \<mapsto>
                  \<lparr>ctx_id = cid, created = Some t1, updated = Some t2,
                   ctx_data = spread initialData [], history = [], steps = []\<rparr>),
                activeContext := Some cid\<rparr>, cid))"

text \<open>
  \<^verbatim>\<open>updateContext(contextId, data, merge)\<close>. The context that \<^verbatim>\<open>getContext\<close> finds is
  the one stored under the given identifier or, when that is falsy, under the active one;
  it is changed in place. The call returns its own argument.
\<close>

definition updateContext ::
  "string \<Rightarrow> int \<Rightarrow> int \<Rightarrow> string option \<Rightarrow> fields \<Rightarrow> bool \<Rightarrow> manager \<Rightarrow> manager \<times> string option" where
  "updateContext fresh t1 t2 contextId d merge m =
     (case getContext m contextId of
        None \<Rightarrow> (case createContext fresh t1 t2 contextId d m of (m', cid) \<Rightarrow> (m', Some cid))
      | Some c \<Rightarrow>
          (let cid = (if falsy_id contextId then the (activeContext m) else the contextId)
           in (m\<lparr>contexts := (contexts m)(cid \<mapsto> update_found (maxHistoryLength m) t1 t2 d merge c)\<rparr>,
               contextId)))"

text \<open>\<^verbatim>\<open>addStep(contextId, stepName, stepData)\<close>: the step, or \<open>None\<close> for \<^verbatim>\<open>null\<close>.\<close>

definition addStep ::
  "int \<Rightarrow> int \<Rightarrow> string option \<Rightarrow> string \<Rightarrow> json \<Rightarrow> manager \<Rightarrow> manager \<times> step option" where
  "addStep t1 t2 contextId stepName stepData m =
     (case getContext m contextId of
        None \<Rightarrow> (m, None)
      | Some c \<Rightarrow>
          (let cid = (if falsy_id contextId then the (activeContext m) else the contextId);
               st = \<lparr>step_name = stepName, step_timestamp = Some t1, step_data = stepData,
                     step_index = length (steps c)\<rparr>
           in (m\<lparr>contexts := (contexts m)(cid \<mapsto> c\<lparr>steps := steps c @ [st], updated := Some t2\<rparr>)\<rparr>,
               Some st)))"

definition deleteContext :: "int \<Rightarrow> string \<Rightarrow> manager \<Rightarrow> manager \<times> bool" where
  "deleteContext t contextId m =
     (case contexts m contextId of
        None \<Rightarrow> (m, False)
      | Some c \<Rightarrow>
          (let pushed = contextHistory m @ [\<lparr>tomb_id = contextId, deleted = Some t, tomb_data = c\<rparr>];
               limited = (if length pushed > maxHistoryLength m then tl pushed else pushed)
           in (m\<lparr>contextHistory := limited,
                 contexts := (contexts m)(contextId := None),
                 activeContext := (if activeContext m = Some contextId then None else activeContext m)\<rparr>,
               True)))"

definition setActiveContext :: "string \<Rightarrow> manager \<Rightarrow> manager \<times> bool" where
  "setActiveContext contextId m =
     (case contexts m contextId of
        None \<Rightarrow> (m, False)
      | Some c \<Rightarrow> (m\<lparr>activeContext := Some contextId\<rparr>, True))"

subsection \<open>Export and import\<close>

text \<open>
  The serialized context: the object that \<^verbatim>\<open>exportContext\<close> returns, with every
  timestamp as text. \<^verbatim>\<open>importContext\<close> is modelled on arguments of this shape.
\<close>

record exported_step =
  es_name :: string
  es_timestamp :: string
  es_data :: json
  es_index :: nat

record exported_snapshot =
  eh_timestamp :: string
  eh_data :: fields

record exported =
  e_id :: string
  e_created :: string
  e_updated :: string
  e_data :: fields
  e_steps :: "exported_step list"
  e_history :: "exported_snapshot list"

text \<open>\<open>map\<close> with a callback that may raise: the first error ends it.\<close>

fun map_raise :: "('a \<Rightarrow> string + 'b) \<Rightarrow> 'a list \<Rightarrow> string + 'b list" where
  "map_raise f [] = Inr []"
| "map_raise f (x # xs) =
     (case f x of
        Inl e \<Rightarrow> Inl e
      | Inr y \<Rightarrow> (case map_raise f xs of Inl e \<Rightarrow> Inl e | Inr ys \<Rightarrow> Inr (y # ys)))"

definition export_step :: "(int \<Rightarrow> string) \<Rightarrow> step \<Rightarrow> string + exported_step" where
  "export_step toISO st =
     (case toISOString toISO (step_timestamp st) of
        Inl e \<Rightarrow> Inl e
      | Inr ts \<Rightarrow> Inr \<lparr>es_name = step_name st, es_timestamp = ts, es_data = step_data st,
                        es_index = step_index st\<rparr>)"

definition export_snapshot :: "(int \<Rightarrow> string) \<Rightarrow> snapshot \<Rightarrow> string + exported_snapshot" where
  "export_snapshot toISO item =
     (case toISOString toISO (snap_timestamp item) of
        Inl e \<Rightarrow> Inl e
      | Inr ts \<Rightarrow> Inr \<lparr>eh_timestamp = ts, eh_data = snap_data item\<rparr>)"

text \<open>
  \<^verbatim>\<open>exportContext(contextId)\<close>: \<open>Inr None\<close> is \<^verbatim>\<open>null\<close> (no such context), \<open>Inl\<close> the
  RangeError of a \<^verbatim>\<open>toISOString\<close> on an Invalid Date.
\<close>

definition exportContext :: "(int \<Rightarrow> string) \<Rightarrow> manager \<Rightarrow> string option \<Rightarrow> string + exported option" where
  "exportContext toISO m contextId =
     (case getContext m contextId of
        None \<Rightarrow> Inr None
      | Some c \<Rightarrow>
          (case toISOString toISO (created c) of
             Inl e \<Rightarrow> Inl e
           | Inr cr \<Rightarrow>
          (case toISOString toISO (updated c) of
             Inl e \<Rightarrow> Inl e
           | Inr up \<Rightarrow>
          (case map_raise (export_step toISO) (steps c) of
             Inl e \<Rightarrow> Inl e
           | Inr ss \<Rightarrow>
          (case map_raise (export_snapshot toISO) (history c) of
             Inl e \<Rightarrow> Inl e
           | Inr hs \<Rightarrow>
               Inr (Some \<lparr>e_id = ctx_id c, e_created = cr, e_updated = up, e_data = ctx_data c,
                          e_steps = ss, e_history = hs\<rparr>))))))"

definition import_step :: "(string \<Rightarrow> date) \<Rightarrow> exported_step \<Rightarrow> step" where
  "import_step newDate st =
     \<lparr>step_name = es_name st, step_timestamp = newDate (es_timestamp st), step_data = es_data st,
      step_index = es_index st\<rparr>"

definition import_snapshot :: "(string \<Rightarrow> date) \<Rightarrow> exported_snapshot \<Rightarrow> snapshot" where
  "import_snapshot newDate item = \<lparr>snap_timestamp = newDate (eh_timestamp item), snap_data = eh_data item\<rparr>"

text \<open>
  \<^verbatim>\<open>importContext(serializedContext)\<close>: the identifier, or \<open>None\<close> for \<^verbatim>\<open>null\<close> when the
  serialized identifier is falsy. The context is created (or, when the identifier exists,
  updated by merging), then its timestamps, steps and history are overwritten.
  \<^verbatim>\<open>createContext\<close> has stored the context under the identifier when it is looked up.
\<close>

definition importContext ::
  "(string \<Rightarrow> date) \<Rightarrow> string \<Rightarrow> int \<Rightarrow> int \<Rightarrow> exported \<Rightarrow> manager \<Rightarrow> manager \<times> string option" where
  "importContext newDate fresh t1 t2 ser m =
     (if e_id ser = [] then (m, None)
      else
        (case createContext fresh t1 t2 (Some (e_id ser)) (e_data ser) m of
           (m1, cid) \<Rightarrow>
             (case contexts m1 (e_id ser) of
                None \<Rightarrow> (m1, Some (e_id ser))
              | Some c \<Rightarrow>
                  (let c1 = (if e_created ser \<noteq> [] then c\<lparr>created := newDate (e_created ser)\<rparr> else c);
                       c2 = (if e_updated ser \<noteq> [] then c1\<lparr>updated := newDate (e_updated ser)\<rparr> else c1);
                       c3 = c2\<lparr>steps := map (import_step newDate) (e_steps ser),
                               history := map (import_snapshot newDate) (e_history ser)\<rparr>
                   in (m1\<lparr>contexts := (contexts m1)(e_id ser \<mapsto> c3)\<rparr>, Some (e_id ser))))))"

subsection \<open>Notions used to state the properties of the context manager\<close>

text \<open>
  The runtime reads the text of an instant back: \<^verbatim>\<open>toISOString\<close> writes a non-empty
  text and \<^verbatim>\<open>new Date\<close> of that text is the same instant.
\<close>

definition reads_back :: "(int \<Rightarrow> string) \<Rightarrow> (string \<Rightarrow> date) \<Rightarrow> int \<Rightarrow> bool" where
  "reads_back toISO newDate t \<longleftrightarrow> toISO t \<noteq> [] \<and> newDate (toISO t) = Some t"

text \<open>The instants that a context holds.\<close>

definition ctx_instants :: "context \<Rightarrow> int set" where
  "ctx_instants c =
     set_option (created c) \<union> set_option (updated c) \<union>
     (\<Union>st \<in> set (steps c). set_option (step_timestamp st)) \<union>
     (\<Union>item \<in> set (history c). set_option (snap_timestamp item))"

text \<open>
  A concrete session and a fragment of the runtime's conversion between instants and
  text, used as inputs: the session \<^verbatim>\<open>s1\<close> with one step and one history entry.
\<close>

definition sample_toISO :: "int \<Rightarrow> string" where
  "sample_toISO t =
     (if t = 0 then ''1970-01-01T00:00:00.000Z''
      else if t = 1000 then ''1970-01-01T00:00:01.000Z''
      else if t = 60000 then ''1970-01-01T00:01:00.000Z''
      else ''+275760-09-13T00:00:00.000Z'')"

definition sample_newDate :: "string \<Rightarrow> date" where
  "sample_newDate s =
     (if s = ''1970-01-01T00:00:00.000Z'' then Some 0
      else if s = ''1970-01-01T00:00:01.000Z'' then Some 1000
      else if s = ''1970-01-01T00:01:00.000Z'' then Some 60000
      else if s = ''+275760-09-13T00:00:00.000Z'' then Some 8640000000000000
      else None)"

definition sample_context :: "context" where
  "sample_context =
     \<lparr>ctx_id = ''s1'', created = Some 0, updated = Some 60000,
      ctx_data = [(''goal'', JStr ''ship''), (''round'', JNum 2)],
      history = [\<lparr>snap_timestamp = Some 1000, snap_data = [(''goal'', JStr ''ship'')]\<rparr>],
      steps = [\<lparr>step_name = ''plan'', step_timestamp = Some 1000, step_data = JObj [],
                step_index = 0\<rparr>]\<rparr>"

definition sample_manager :: manager where
  "sample_manager = new_manager\<lparr>contexts := [''s1'' \<mapsto> sample_context], activeContext := Some ''s1''\<rparr>"

definition sample_exported :: exported where
  "sample_exported =
     \<lparr>e_id = ''s1'', e_created = ''1970-01-01T00:00:00.000Z'',
      e_updated = ''1970-01-01T00:01:00.000Z'',
      e_data = [(''goal'', JStr ''ship''), (''round'', JNum 2)],
      e_steps = [\<lparr>es_name = ''plan'', es_timestamp = ''1970-01-01T00:00:01.000Z'',
                  es_data = JObj [], es_index = 0\<rparr>],
      e_history = [\<lparr>eh_timestamp = ''1970-01-01T00:00:01.000Z'',
                    eh_data = [(''goal'', JStr ''ship'')]\<rparr>]\<rparr>"

text \<open>
  A sequence of \<^verbatim>\<open>updateContext(cid, data, merge)\<close> calls on one session, each with
  its two clock readings.
\<close>

type_synonym update_call = "int \<times> int \<times> fields \<times> bool"

fun updates :: "string \<Rightarrow> update_call list \<Rightarrow> manager \<Rightarrow> manager" where
  "updates cid [] m = m"
| "updates cid ((t1, t2, d, merge) # us) m =
     updates cid us (fst (updateContext [] t1 t2 (Some cid) d merge m))"

text \<open>The data of the session as the \<open>i\<close>-th call finds it, with the time of that call.\<close>

definition pre_update_snapshot :: "string \<Rightarrow> update_call list \<Rightarrow> manager \<Rightarrow> nat \<Rightarrow> snapshot" where
  "pre_update_snapshot cid us m i =
     \<lparr>snap_timestamp = Some (fst (us ! i)),
      snap_data = (case contexts (updates cid (take i us) m) cid of
                     Some c \<Rightarrow> ctx_data c | None \<Rightarrow> [])\<rparr>"

definition pre_update_snapshots :: "string \<Rightarrow> update_call list \<Rightarrow> manager \<Rightarrow> snapshot list" where
  "pre_update_snapshots cid us m = map (pre_update_snapshot cid us m) [0..<length us]"

text \<open>
  Fifteen updates of a session that was created with \<^verbatim>\<open>{n: 0}\<close>: the \<open>n\<close>-th sets
  \<^verbatim>\<open>n\<close> to \<open>n\<close>, at time \<open>n\<close>.
\<close>

definition counting_updates :: "update_call list" where
  "counting_updates = map (\<lambda>n. (int n, int n, [(''n'', JNum (int n))], True)) [1..<16]"

definition counting_manager :: manager where
  "counting_manager = fst (createContext [] 0 0 (Some ''s1'') [(''n'', JNum 0)] new_manager)"

text \<open>
  The session \<^verbatim>\<open>s2\<close> as another manager exported it, with a history of 12 entries, and
  a manager with the default maximum that has imported it.
\<close>

definition long_exported :: exported where
  "long_exported =
     \<lparr>e_id = ''s2'', e_created = ''1970-01-01T00:00:00.000Z'',
      e_updated = ''1970-01-01T00:01:00.000Z'',
      e_data = [(''n'', JNum 0)],
      e_steps = [],
      e_history = map (\<lambda>n. \<lparr>eh_timestamp = ''1970-01-01T00:00:01.000Z'',
                              eh_data = [(''n'', JNum (- int n))]\<rparr>) (rev [1..<13])\<rparr>"

definition imported_manager :: manager where
  "imported_manager = fst (importContext sample_newDate [] 0 0 long_exported new_manager)"
section \<open>The client\<close>

text \<open>
  The client is an object whose methods run as callbacks of one event loop. Its state is
  the record \<open>client\<close>: the fields of the class, then what the runtime holds for it
  (whether a listener for its \<^verbatim>\<open>error\<close> event has been added, the sockets it created with
  their listeners, the timers it set, the promise reactions that are queued), in \<open>effects\<close>
  what it did, in order, and in \<open>crashed\<close> whether an exception has left a callback
  uncaught, which ends the process.

  The model covers \<^verbatim>\<open>connect\<close>, \<^verbatim>\<open>disconnect\<close>, \<^verbatim>\<open>sendCommand\<close>, \<^verbatim>\<open>listResources\<close>,
  \<^verbatim>\<open>getResource\<close> and the socket and timer callbacks. A caller of \<^verbatim>\<open>sendCommand\<close> other
  than \<^verbatim>\<open>listResources\<close> and \<^verbatim>\<open>getResource\<close> is \<open>Direct\<close>.
\<close>

datatype ready_state = CONNECTING | OPEN | CLOSING | CLOSED

text \<open>Who awaits the promise that \<^verbatim>\<open>sendCommand\<close> returns.\<close>

datatype caller = Direct | AwaitGetResource string | AwaitListResources

text \<open>
  The message of an \<^verbatim>\<open>Error\<close>: a text, or the text that \<^verbatim>\<open>JSON.stringify\<close> writes for a
  value.
\<close>

datatype error_message = Message string | JsonText json

datatype settled = Resolved json | Rejected error_message

text \<open>The arguments of a \<^verbatim>\<open>sendCommand\<close> call.\<close>

record request =
  rq_command :: string
  rq_params :: json
  rq_timeout :: "nat option"

text \<open>
  What the runtime supplies to a call: the identifier that \<^verbatim>\<open>uuidv4()\<close> returns, the
  handle that \<^verbatim>\<open>setTimeout\<close> returns, the reading of \<^verbatim>\<open>Date.now()\<close>, and what
  \<^verbatim>\<open>new WebSocket(url)\<close> does if the call connects: the new socket, or the message of the
  error it throws.
\<close>

record supplies =
  new_id :: string
  new_timer :: nat
  clock :: int
  new_socket :: "string + nat"

text \<open>Who awaits the promise that \<^verbatim>\<open>connect\<close> returns.\<close>

datatype waiter = ByCaller | ByReconnect | BySend request supplies caller

record pending =
  p_command :: string
  p_params :: json
  timeoutId :: nat
  sentAt :: int
  awaited_by :: caller

datatype timer = CommandTimer nat string nat | ReconnectTimer nat

datatype event =
    EvWelcome json
  | EvMessage json
  | EvError error_message
  | EvDisconnected nat string
  | EvReconnecting nat nat
  | EvReconnectFailed
  | EvReconnected
  | EvResourcesListed "json list"
  | EvResourceRetrieved string json

datatype effect =
    Emit event
  | NewSocket nat string
  | Send nat json
  | CloseSocket nat nat string
  | SetTimeout timer
  | ClearTimeout nat
  | Settle string settled
  | Return caller settled
  | ProbePorts
  | Uncaught error_message

text \<open>
  A promise reaction that is queued: the promise of a \<^verbatim>\<open>connect\<close> call was resolved
  (\<open>None\<close>) or rejected with an error message, or the promise of a \<^verbatim>\<open>sendCommand\<close> call
  was settled.
\<close>

datatype task = ConnectSettled waiter "string option" | CommandSettled caller settled

text \<open>
  A socket that \<^verbatim>\<open>connect\<close> created: its \<^verbatim>\<open>readyState\<close>, whether its two \<^verbatim>\<open>once\<close>
  listeners are still to run, and the promise of the \<^verbatim>\<open>connect\<close> call while it is
  pending.
\<close>

record socket =
  readyState :: ready_state
  once_open :: bool
  once_error :: bool
  connect_promise :: "waiter option"

record client =
  url :: string
  timeout :: nat
  maxReconnectAttempts :: nat
  reconnectDelay :: nat
  ws :: "nat option"
  connected :: bool
  reconnectAttempts :: nat
  intentionalClose :: bool
  pendingCommands :: "(string \<times> pending) list"
  contextId :: "string option"
  sequenceId :: nat
  availableResources :: "string \<rightharpoonup> json"
  error_listener :: bool
  sockets :: "nat \<rightharpoonup> socket"
  timers :: "timer list"
  microtasks :: "task list"
  effects :: "effect list"
  crashed :: bool

text \<open>
  The constructor: an option that is absent or falsy takes the default. It adds no
  listener.
\<close>

record client_options =
  opt_url :: "string option"
  opt_timeout :: "nat option"
  opt_maxReconnectAttempts :: "nat option"
  opt_reconnectDelay :: "nat option"

definition or_default :: "nat option \<Rightarrow> nat \<Rightarrow> nat" where
  "or_default v d = (case v of Some n \<Rightarrow> if n \<noteq> 0 then n else d | None \<Rightarrow> d)"

definition new_client :: "client_options \<Rightarrow> client" where
  "new_client options =
     \<lparr>url = (case opt_url options of Some u \<Rightarrow> if u \<noteq> [] then u else ''ws://localhost:8765''
                                     | None \<Rightarrow> ''ws://localhost:8765''),
      timeout = or_default (opt_timeout options) 30000,
      maxReconnectAttempts = or_default (opt_maxReconnectAttempts options) 3,
      reconnectDelay = or_default (opt_reconnectDelay options) 2000,
      ws = None, connected = False, reconnectAttempts = 0, intentionalClose = False,
      pendingCommands = [], contextId = None, sequenceId = 0,
      availableResources = Map.empty, error_listener = False,
      sockets = Map.empty, timers = [], microtasks = [], effects = [], crashed = False\<rparr>"

definition act :: "effect list \<Rightarrow> client \<Rightarrow> client" where
  "act es c = c\<lparr>effects := effects c @ es\<rparr>"

definition queue :: "task \<Rightarrow> client \<Rightarrow> client" where
  "queue t c = c\<lparr>microtasks := microtasks c @ [t]\<rparr>"

text \<open>
  \<^verbatim>\<open>this.emit('error', error)\<close>: the listeners are called; an emitter that has no listener
  for \<^verbatim>\<open>error\<close> throws the error instead, and no caller of the client's callbacks catches
  it.
\<close>

definition emit_error :: "error_message \<Rightarrow> client \<Rightarrow> client" where
  "emit_error e c =
     (if error_listener c then act [Emit (EvError e)] c
      else act [Uncaught e] (c\<lparr>crashed := True\<rparr>))"

subsection \<open>Connection\<close>

text \<open>
  \<^verbatim>\<open>connect()\<close>, awaited by \<open>w\<close>. The new socket becomes \<^verbatim>\<open>this.ws\<close> with the listeners
  of the call on it.
\<close>

definition connect :: "string + nat \<Rightarrow> waiter \<Rightarrow> client \<Rightarrow> client" where
  "connect sock w c =
     (if connected c \<and> ws c \<noteq> None then queue (ConnectSettled w None) c
      else case sock of
             Inl msg \<Rightarrow> queue (ConnectSettled w (Some msg)) c
           | Inr s \<Rightarrow>
               act [NewSocket s (url c)]
                 (c\<lparr>ws := Some s,
                    sockets := (sockets c)(s \<mapsto>
                      \<lparr>readyState = CONNECTING, once_open = True, once_error = True,
                       connect_promise = Some w\<rparr>)\<rparr>))"

text \<open>Settling the promise of the \<^verbatim>\<open>connect\<close> call that made socket \<open>s\<close>; a settled promise stays.\<close>

definition settle_connect :: "nat \<Rightarrow> string option \<Rightarrow> client \<Rightarrow> client" where
  "settle_connect s res c =
     (case sockets c s of
        None \<Rightarrow> c
      | Some sk \<Rightarrow>
          (case connect_promise sk of
             None \<Rightarrow> c
           | Some w \<Rightarrow>
               queue (ConnectSettled w res)
                 (c\<lparr>sockets := (sockets c)(s \<mapsto> sk\<lparr>connect_promise := None\<rparr>)\<rparr>)))"

text \<open>\<^verbatim>\<open>_attemptReconnect()\<close>.\<close>

definition attemptReconnect :: "client \<Rightarrow> client" where
  "attemptReconnect c =
     (if reconnectAttempts c \<ge> maxReconnectAttempts c then act [Emit EvReconnectFailed] c
      else
        (let n = reconnectAttempts c + 1;
             delay = reconnectDelay c * n
         in act [Emit (EvReconnecting n (maxReconnectAttempts c)), SetTimeout (ReconnectTimer delay)]
              (c\<lparr>reconnectAttempts := n, timers := timers c @ [ReconnectTimer delay]\<rparr>)))"

text \<open>
  \<^verbatim>\<open>_handleError(error)\<close> and \<^verbatim>\<open>_handleClose(code, reason)\<close>. When the \<^verbatim>\<open>emit\<close> of
  \<^verbatim>\<open>_handleError\<close> throws, the rest of the method does not run.
\<close>

definition handleError :: "string \<Rightarrow> client \<Rightarrow> client" where
  "handleError msg c =
     (let c1 = emit_error (Message msg) c
      in if crashed c1 then c1
         else if intentionalClose c1 then c1 else attemptReconnect c1)"

definition handleClose :: "nat \<Rightarrow> string \<Rightarrow> client \<Rightarrow> client" where
  "handleClose code reason c =
     (let c1 = act [Emit (EvDisconnected code reason)] (c\<lparr>connected := False\<rparr>)
      in if intentionalClose c1 then c1\<lparr>intentionalClose := False\<rparr> else attemptReconnect c1)"

text \<open>
  The callback of the timer that \<^verbatim>\<open>_attemptReconnect\<close> set. From the second attempt on it
  starts \<^verbatim>\<open>_tryAlternativePorts()\<close>, whose promise settles later, with the URL it returns
  (\<open>Inr\<close>) or an error (\<open>Inl\<close>): \<open>probe_finished\<close>.
\<close>

definition reconnect_timer_fires :: "string + nat \<Rightarrow> client \<Rightarrow> client" where
  "reconnect_timer_fires sock c =
     (if \<not> connected c
      then (if reconnectAttempts c > 1 then act [ProbePorts] c else connect sock ByReconnect c)
      else c)"

definition probe_finished :: "string + string \<Rightarrow> string + nat \<Rightarrow> client \<Rightarrow> client" where
  "probe_finished res sock c =
     (case res of
        Inl msg \<Rightarrow> attemptReconnect c
      | Inr newUrl \<Rightarrow>
          connect sock ByReconnect (if newUrl \<noteq> [] \<and> newUrl \<noteq> url c then c\<lparr>url := newUrl\<rparr> else c))"

subsection \<open>Commands\<close>

definition settle_command :: "string \<Rightarrow> caller \<Rightarrow> settled \<Rightarrow> client \<Rightarrow> client" where
  "settle_command commandId who res c = queue (CommandSettled who res) (act [Settle commandId res] c)"

definition clear_timeout :: "nat \<Rightarrow> client \<Rightarrow> client" where
  "clear_timeout h c =
     act [ClearTimeout h]
       (c\<lparr>timers := filter (\<lambda>t. case t of CommandTimer h' i ms \<Rightarrow> h' \<noteq> h | ReconnectTimer d \<Rightarrow> True)
                        (timers c)\<rparr>)"

text \<open>
  The body of \<^verbatim>\<open>sendCommand\<close> once the client is connected: the envelope, the timeout,
  the pending entry, the send.
\<close>

definition envelope :: "request \<Rightarrow> supplies \<Rightarrow> client \<Rightarrow> fields" where
  "envelope rq sp c =
     [(''id'', JStr (new_id sp)), (''command'', JStr (rq_command rq)), (''params'', rq_params rq),
      (''context'', (case contextId c of None \<Rightarrow> JNull | Some x \<Rightarrow> JStr x)),
      (''sequence'', JNum (int (sequenceId c)))]"

definition send_now :: "request \<Rightarrow> supplies \<Rightarrow> caller \<Rightarrow> client \<Rightarrow> client" where
  "send_now rq sp who c =
     (let ms = or_default (rq_timeout rq) (timeout c);
          message = JObj (envelope rq sp c);
          tm = CommandTimer (new_timer sp) (new_id sp) ms
      in act (SetTimeout tm # (case ws c of None \<Rightarrow> [] | Some s \<Rightarrow> [Send s message]))
           (c\<lparr>sequenceId := sequenceId c + 1,
              timers := timers c @ [tm],
              pendingCommands := AList.update (new_id sp)
                \<lparr>p_command = rq_command rq, p_params = rq_params rq, timeoutId = new_timer sp,
                 sentAt = clock sp, awaited_by = who\<rparr> (pendingCommands c)\<rparr>))"

definition sendCommand :: "request \<Rightarrow> supplies \<Rightarrow> caller \<Rightarrow> client \<Rightarrow> client" where
  "sendCommand rq sp who c =
     (if \<not> connected c then connect (new_socket sp) (BySend rq sp who) c else send_now rq sp who c)"

text \<open>The callback of the timeout of a command.\<close>

definition command_timer_fires :: "string \<Rightarrow> nat \<Rightarrow> client \<Rightarrow> client" where
  "command_timer_fires commandId ms c =
     (case map_of (pendingCommands c) commandId of
        None \<Rightarrow> c
      | Some p \<Rightarrow>
          settle_command commandId (awaited_by p)
            (Rejected (Message (''Command timed out after '' @ show_int (int ms) @ ''ms'')))
            (c\<lparr>pendingCommands := AList.delete commandId (pendingCommands c)\<rparr>))"

text \<open>\<^verbatim>\<open>disconnect(reason)\<close>: the loop over the pending commands, then the close.\<close>

definition reject_closed :: "string \<times> pending \<Rightarrow> client \<Rightarrow> client" where
  "reject_closed entry c =
     (let c1 = clear_timeout (timeoutId (snd entry)) c;
          c2 = settle_command (fst entry) (awaited_by (snd entry)) (Rejected (Message ''Connection closed'')) c1
      in c2\<lparr>pendingCommands := AList.delete (fst entry) (pendingCommands c2)\<rparr>)"

definition disconnect :: "string \<Rightarrow> client \<Rightarrow> client" where
  "disconnect reason c =
     (case ws c of
        None \<Rightarrow> c
      | Some s \<Rightarrow>
          if \<not> connected c then c
          else
            (let c1 = fold reject_closed (pendingCommands c) (c\<lparr>intentionalClose := True\<rparr>)
             in case sockets c1 s of
                  Some sk \<Rightarrow>
                    if readyState sk = OPEN
                    then act [CloseSocket s 1000 reason]
                           (c1\<lparr>sockets := (sockets c1)(s \<mapsto> sk\<lparr>readyState := CLOSING\<rparr>)\<rparr>)
                    else c1
                | None \<Rightarrow> c1))"

subsection \<open>Responses\<close>

text \<open>\<^verbatim>\<open>String.prototype.includes\<close>: the text \<open>p\<close> occurs in \<open>s\<close>.\<close>

fun includes_text :: "string \<Rightarrow> string \<Rightarrow> bool" where
  "includes_text [] p = (p = [])"
| "includes_text (x # xs) p = (take (length p) (x # xs) = p \<or> includes_text xs p)"

text \<open>
  The test \<^verbatim>\<open>response.message && response.message.includes('Welcome')\<close> on a response that
  is not \<^verbatim>\<open>null\<close>. A truthy message that is neither a string nor an array has no
  \<^verbatim>\<open>includes\<close>: the call raises a TypeError.
\<close>

datatype greeting = IsWelcome | NotWelcome | Raises string

definition welcome_test :: "json \<Rightarrow> greeting" where
  "welcome_test response =
     (case property response ''message'' of
        None \<Rightarrow> NotWelcome
      | Some m \<Rightarrow>
          if \<not> truthy m then NotWelcome
          else (case m of
                  JStr s \<Rightarrow> if includes_text s ''Welcome'' then IsWelcome else NotWelcome
                | JArr xs \<Rightarrow> if JStr ''Welcome'' \<in> set xs then IsWelcome else NotWelcome
                | _ \<Rightarrow> Raises ''response.message.includes is not a function''))"

text \<open>
  The error that a truthy \<^verbatim>\<open>response.error\<close> becomes: its \<^verbatim>\<open>message\<close> when it is an object
  with a truthy one, its JSON text when it is another object, itself otherwise.
\<close>

definition error_of :: "json \<Rightarrow> error_message" where
  "error_of e =
     (case e of
        JObj fs \<Rightarrow> (case map_of fs ''message'' of
                      Some m \<Rightarrow> if truthy m then Message (js_string m) else JsonText e
                    | None \<Rightarrow> JsonText e)
      | JArr xs \<Rightarrow> JsonText e
      | _ \<Rightarrow> Message (js_string e))"

text \<open>
  What both matching branches of \<^verbatim>\<open>_handleMessage\<close> do with the pending command they
  found: clear its timeout, reject or resolve it, delete it.
\<close>

definition answer :: "string \<Rightarrow> pending \<Rightarrow> json \<Rightarrow> client \<Rightarrow> client" where
  "answer commandId p response c =
     (let c1 = clear_timeout (timeoutId p) c;
          c2 = (case property response ''error'' of
                  Some e \<Rightarrow>
                    if truthy e then settle_command commandId (awaited_by p) (Rejected (error_of e)) c1
                    else settle_command commandId (awaited_by p) (Resolved response) c1
                | None \<Rightarrow> settle_command commandId (awaited_by p) (Resolved response) c1)
      in c2\<lparr>pendingCommands := AList.delete commandId (pendingCommands c2)\<rparr>)"

text \<open>\<^verbatim>\<open>response.id && this.pendingCommands.has(response.id)\<close>: the keys are strings.\<close>

definition by_id :: "json \<Rightarrow> client \<Rightarrow> (string \<times> pending) option" where
  "by_id response c =
     (case property response ''id'' of
        Some (JStr i) \<Rightarrow>
          if i \<noteq> [] then map_option (Pair i) (map_of (pendingCommands c) i) else None
      | _ \<Rightarrow> None)"

text \<open>The loop over the pending commands that compares the command names.\<close>

definition by_name :: "json \<Rightarrow> client \<Rightarrow> (string \<times> pending) option" where
  "by_name response c =
     (if truthy_opt (property response ''command'')
      then find (\<lambda>entry. property response ''command'' = Some (JStr (p_command (snd entry))))
             (pendingCommands c)
      else None)"

text \<open>The \<^verbatim>\<open>catch\<close> of \<^verbatim>\<open>_handleMessage\<close>, whose \<^verbatim>\<open>emit\<close> is outside every \<^verbatim>\<open>try\<close>.\<close>

definition parse_failure :: "string \<Rightarrow> client \<Rightarrow> client" where
  "parse_failure msg c = emit_error (Message (''Failed to parse server message: '' @ msg)) c"

text \<open>
  \<^verbatim>\<open>_handleMessage(data)\<close>. \<open>data\<close> is what \<^verbatim>\<open>JSON.parse\<close> makes of the payload (\<open>Inl\<close> the
  message of its SyntaxError); \<open>fresh\<close> is the identifier that \<^verbatim>\<open>uuidv4()\<close> returns if the
  context is initialized.
\<close>

definition client_handleMessage :: "string \<Rightarrow> string + json \<Rightarrow> client \<Rightarrow> client" where
  "client_handleMessage fresh data c =
     (case data of
        Inl msg \<Rightarrow> parse_failure msg c
      | Inr response \<Rightarrow>
          if response = JNull
          then parse_failure ''Cannot read properties of null (reading 'message')'' c
          else
            (case welcome_test response of
               Raises msg \<Rightarrow> parse_failure msg c
             | IsWelcome \<Rightarrow>
                 (let c1 = act [Emit (EvWelcome response)] c
                  in if contextId c1 = None \<or> contextId c1 = Some []
                     then c1\<lparr>contextId := Some fresh\<rparr> else c1)
             | NotWelcome \<Rightarrow>
                 (case by_id response c of
                    Some (i, p) \<Rightarrow> answer i p response c
                  | None \<Rightarrow>
                      (case by_name response c of
                         Some (i, p) \<Rightarrow> answer i p response c
                       | None \<Rightarrow> act [Emit (EvMessage response)] c))))"

subsection \<open>Resources\<close>

text \<open>
  \<^verbatim>\<open>getResource(uri)\<close> up to its \<^verbatim>\<open>await\<close>, and the rest of it once the promise of
  \<^verbatim>\<open>sendCommand\<close> is settled.
\<close>

definition getResource :: "string \<Rightarrow> supplies \<Rightarrow> client \<Rightarrow> client" where
  "getResource uri sp c =
     (let fetch = sendCommand \<lparr>rq_command = ''get-resource'', rq_params = JObj [(''uri'', JStr uri)],
                              rq_timeout = None\<rparr> sp (AwaitGetResource uri) c
      in case availableResources c uri of
           Some v \<Rightarrow> if v \<noteq> JNull then act [Return (AwaitGetResource uri) (Resolved v)] c else fetch
         | None \<Rightarrow> fetch)"

definition getResource_resume :: "string \<Rightarrow> settled \<Rightarrow> client \<Rightarrow> client" where
  "getResource_resume uri res c =
     (case res of
        Rejected e \<Rightarrow> act [Return (AwaitGetResource uri) (Rejected e)] c
      | Resolved response \<Rightarrow>
          (case property response ''resource'' of
             Some r \<Rightarrow>
               if truthy_opt (property response ''success'') \<and> truthy r
               then act [Emit (EvResourceRetrieved uri r), Return (AwaitGetResource uri) (Resolved r)]
                      (c\<lparr>availableResources := (availableResources c)(uri \<mapsto> r)\<rparr>)
               else act [Return (AwaitGetResource uri)
                          (Rejected (Message (if truthy_opt (property response ''error'')
                                              then js_string_opt (property response ''error'')
                                              else ''Failed to get resource'')))] c
           | None \<Rightarrow>
               act [Return (AwaitGetResource uri)
                      (Rejected (Message (if truthy_opt (property response ''error'')
                                          then js_string_opt (property response ''error'')
                                          else ''Failed to get resource'')))] c))"

text \<open>
  \<^verbatim>\<open>listResources(options)\<close> likewise. A listed URI that the map does not have gets the
  placeholder \<^verbatim>\<open>null\<close>; the map of the model has the keys that are strings.
\<close>

definition listResources :: "json \<Rightarrow> supplies \<Rightarrow> client \<Rightarrow> client" where
  "listResources options sp c =
     sendCommand \<lparr>rq_command = ''list-resources'', rq_params = options, rq_timeout = None\<rparr>
       sp AwaitListResources c"

definition note_listed :: "json \<Rightarrow> (string \<rightharpoonup> json) \<Rightarrow> (string \<rightharpoonup> json)" where
  "note_listed uri res =
     (case uri of
        JStr u \<Rightarrow> (case res u of None \<Rightarrow> res(u \<mapsto> JNull) | Some v \<Rightarrow> res)
      | _ \<Rightarrow> res)"

definition listResources_resume :: "settled \<Rightarrow> client \<Rightarrow> client" where
  "listResources_resume res c =
     (case res of
        Rejected e \<Rightarrow> act [Return AwaitListResources (Rejected e)] c
      | Resolved response \<Rightarrow>
          (case property response ''resources'' of
             Some (JArr uris) \<Rightarrow>
               if truthy_opt (property response ''success'')
               then act [Emit (EvResourcesListed uris), Return AwaitListResources (Resolved (JArr uris))]
                      (c\<lparr>availableResources := fold note_listed uris (availableResources c)\<rparr>)
               else act [Return AwaitListResources (Resolved (JArr uris))] c
           | Some r \<Rightarrow>
               act [Return AwaitListResources (Resolved (if truthy r then r else JArr []))] c
           | None \<Rightarrow> act [Return AwaitListResources (Resolved (JArr []))] c))"

subsection \<open>The event loop\<close>

text \<open>The reaction to a settled promise.\<close>

definition run_task :: "task \<Rightarrow> client \<Rightarrow> client" where
  "run_task t c =
     (case t of
        ConnectSettled ByCaller res \<Rightarrow> c
      | ConnectSettled ByReconnect None \<Rightarrow> act [Emit EvReconnected] c
      | ConnectSettled ByReconnect (Some msg) \<Rightarrow> attemptReconnect c
      | ConnectSettled (BySend rq sp who) None \<Rightarrow> send_now rq sp who c
      | ConnectSettled (BySend rq sp who) (Some msg) \<Rightarrow>
          settle_command (new_id sp) who (Rejected (Message (''Failed to connect: '' @ msg))) c
      | CommandSettled Direct res \<Rightarrow> c
      | CommandSettled (AwaitGetResource uri) res \<Rightarrow> getResource_resume uri res c
      | CommandSettled AwaitListResources res \<Rightarrow> listResources_resume res c)"

fun task_weight :: "task \<Rightarrow> nat" where
  "task_weight (ConnectSettled w res) = 2"
| "task_weight (CommandSettled who res) = 1"

text \<open>
  After a callback has run, the queued reactions run, first in first out, with those
  that they queue, until none is left.
\<close>

definition queue_weight :: "client \<Rightarrow> nat" where
  "queue_weight c = sum_list (map task_weight (microtasks c))"

function drain :: "client \<Rightarrow> client" where
  "drain c =
     (case microtasks c of
        [] \<Rightarrow> c
      | t # ts \<Rightarrow> drain (run_task t (c\<lparr>microtasks := ts\<rparr>)))"
  by pat_completeness auto
termination
  by (relation "measure queue_weight")
     (auto simp: run_task_def queue_weight_def act_def queue_def attemptReconnect_def Let_def
        send_now_def settle_command_def getResource_resume_def listResources_resume_def
      split: task.splits waiter.splits option.splits caller.splits settled.splits json.splits)

text \<open>
  What a socket that the client created emits: \<^verbatim>\<open>open\<close>, \<^verbatim>\<open>message\<close> (with what
  \<^verbatim>\<open>JSON.parse\<close> makes of the data and the identifier that \<^verbatim>\<open>uuidv4()\<close> would return),
  \<^verbatim>\<open>error\<close>, \<^verbatim>\<open>close\<close>. The listeners run in the order in which \<^verbatim>\<open>connect\<close> added them:
  on \<^verbatim>\<open>error\<close> the \<^verbatim>\<open>once\<close> listener, which rejects the promise of \<^verbatim>\<open>connect\<close>, then
  \<^verbatim>\<open>_handleError\<close>. The \<^verbatim>\<open>removeListener\<close> calls name functions that are not listeners
  and remove nothing. Once an exception is uncaught nothing runs any more.
\<close>

datatype sock_event =
    SockOpen
  | SockMessage "string + json" string
  | SockError string
  | SockClose nat string

definition socket_event :: "nat \<Rightarrow> sock_event \<Rightarrow> client \<Rightarrow> client" where
  "socket_event s ev c =
     (if crashed c then c
      else case sockets c s of
        None \<Rightarrow> c
      | Some sk \<Rightarrow>
          (case ev of
             SockOpen \<Rightarrow>
               if once_open sk
               then settle_connect s None
                      (c\<lparr>sockets := (sockets c)(s \<mapsto> sk\<lparr>readyState := OPEN, once_open := False\<rparr>),
                         connected := True, reconnectAttempts := 0\<rparr>)
               else c\<lparr>sockets := (sockets c)(s \<mapsto> sk\<lparr>readyState := OPEN\<rparr>)\<rparr>
           | SockMessage data fresh \<Rightarrow> client_handleMessage fresh data c
           | SockError msg \<Rightarrow>
               if once_error sk
               then handleError msg
                      (settle_connect s (Some msg)
                         (c\<lparr>sockets := (sockets c)(s \<mapsto> sk\<lparr>once_error := False\<rparr>)\<rparr>))
               else handleError msg c
           | SockClose code reason \<Rightarrow>
               handleClose code reason
                 (c\<lparr>sockets := (sockets c)(s \<mapsto> sk\<lparr>readyState := CLOSED\<rparr>)\<rparr>)))"

text \<open>
  One turn of the event loop: a call of a method of the client (\<^verbatim>\<open>on('error', listener)\<close>
  among them), the events that a socket emits in one synchronous run, a timer that fires,
  or the end of \<^verbatim>\<open>_tryAlternativePorts\<close>. The reactions that the turn queued run at its
  end, unless the turn ended with an uncaught exception. No turn runs after that.
\<close>

datatype job =
    CallOnError
  | CallConnect "string + nat"
  | CallDisconnect string
  | CallSendCommand request supplies
  | CallGetResource string supplies
  | CallListResources json supplies
  | SocketEvents nat "sock_event list"
  | TimerFires timer "string + nat"
  | ProbeFinished "string + string" "string + nat"

definition timer_fires :: "timer \<Rightarrow> string + nat \<Rightarrow> client \<Rightarrow> client" where
  "timer_fires t sock c =
     (if t \<in> set (timers c)
      then (case t of
              CommandTimer h commandId ms \<Rightarrow> command_timer_fires commandId ms (c\<lparr>timers := remove1 t (timers c)\<rparr>)
            | ReconnectTimer delay \<Rightarrow> reconnect_timer_fires sock (c\<lparr>timers := remove1 t (timers c)\<rparr>))
      else c)"

definition callback :: "job \<Rightarrow> client \<Rightarrow> client" where
  "callback j c =
     (case j of
        CallOnError \<Rightarrow> c\<lparr>error_listener := True\<rparr>
      | CallConnect sock \<Rightarrow> connect sock ByCaller c
      | CallDisconnect reason \<Rightarrow> disconnect reason c
      | CallSendCommand rq sp \<Rightarrow> sendCommand rq sp Direct c
      | CallGetResource uri sp \<Rightarrow> getResource uri sp c
      | CallListResources options sp \<Rightarrow> listResources options sp c
      | SocketEvents s evs \<Rightarrow> fold (socket_event s) evs c
      | TimerFires t sock \<Rightarrow> timer_fires t sock c
      | ProbeFinished res sock \<Rightarrow> probe_finished res sock c)"

definition reactions :: "client \<Rightarrow> client" where
  "reactions c = (if crashed c then c else drain c)"

definition run_job :: "job \<Rightarrow> client \<Rightarrow> client" where
  "run_job j c = (if crashed c then c else reactions (callback j c))"

definition run :: "job list \<Rightarrow> client \<Rightarrow> client" where
  "run js c = fold run_job js c"
subsection \<open>Notions and concrete inputs used to state the properties of the client\<close>

text \<open>
  What the loop of \<^verbatim>\<open>disconnect\<close> does for the pending commands it visits: for each, in
  order, the timeout is cleared and the promise is rejected with \<^verbatim>\<open>Connection closed\<close>.
\<close>

definition closed_effects :: "(string \<times> pending) list \<Rightarrow> effect list" where
  "closed_effects entries =
     concat (map (\<lambda>entry. [ClearTimeout (timeoutId (snd entry)),
                             Settle (fst entry) (Rejected (Message ''Connection closed''))]) entries)"

text \<open>
  A client with \<^verbatim>\<open>maxReconnectAttempts: 3\<close> and \<^verbatim>\<open>reconnectDelay: 2000\<close>, as the
  constructor builds it, and the same client once its user has added a listener for
  \<^verbatim>\<open>error\<close> and it is connected over socket 1.
\<close>

definition default_client :: client where
  "default_client =
     new_client \<lparr>opt_url = None, opt_timeout = None, opt_maxReconnectAttempts = Some 3,
                 opt_reconnectDelay = Some 2000\<rparr>"

definition open_client :: client where
  "open_client = run [CallOnError, CallConnect (Inr 1), SocketEvents 1 [SockOpen]] default_client"

text \<open>The client connected over socket 1 without a listener for \<^verbatim>\<open>error\<close>.\<close>

definition unheard_client :: client where
  "unheard_client = run [CallConnect (Inr 1), SocketEvents 1 [SockOpen]] default_client"

text \<open>The same client with two commands outstanding.\<close>

definition two_pending :: client where
  "two_pending =
     run [CallSendCommand \<lparr>rq_command = ''generate-tasks'', rq_params = JObj [], rq_timeout = None\<rparr>
            \<lparr>new_id = ''req-A'', new_timer = 1, clock = 1000, new_socket = Inr 2\<rparr>,
          CallSendCommand \<lparr>rq_command = ''list-tools'', rq_params = JObj [], rq_timeout = Some 5000\<rparr>
            \<lparr>new_id = ''req-B'', new_timer = 2, clock = 1001, new_socket = Inr 2\<rparr>]
       open_client"

text \<open>
  The response to an earlier \<^verbatim>\<open>generate-tasks\<close> request \<^verbatim>\<open>req-0\<close> that is no longer
  pending, as the server's handler and dispatcher build it.
\<close>

definition late_response :: json where
  "late_response =
     JObj [(''id'', JStr ''req-0''), (''success'', JBool True), (''command'', JStr ''generate-tasks''),
           (''tasks'', JArr []), (''metadata'', JObj []),
           (''message'', JStr ''Tasks generated successfully''),
           (''timestamp'', JStr ''2025-01-01T00:00:40.000Z'')]"

text \<open>
  The connection closes; the first reconnection timer fires; the new socket is refused
  (\<^verbatim>\<open>error\<close>, then \<^verbatim>\<open>close\<close>). Then the two timers that are left fire, the probe of the
  alternative ports finds no server, and the sockets they open are refused as well.
\<close>

definition refused :: "job list" where
  "refused =
     [SocketEvents 1 [SockClose 1006 []],
      TimerFires (ReconnectTimer 2000) (Inr 2),
      SocketEvents 2 [SockError ''connect ECONNREFUSED 127.0.0.1:8765'', SockClose 1006 []]]"

definition refused_again :: "job list" where
  "refused_again =
     [TimerFires (ReconnectTimer 4000) (Inr 3),
      ProbeFinished (Inr ''ws://localhost:8765'') (Inr 3),
      SocketEvents 3 [SockError ''connect ECONNREFUSED 127.0.0.1:8765'', SockClose 1006 []],
      TimerFires (ReconnectTimer 6000) (Inr 4),
      ProbeFinished (Inr ''ws://localhost:8765'') (Inr 4),
      SocketEvents 4 [SockError ''connect ECONNREFUSED 127.0.0.1:8765'', SockClose 1006 []]]"

text \<open>The error of the dispatcher for a command that is not registered.\<close>

definition unknown_error :: "string \<Rightarrow> json" where
  "unknown_error cmd =
     JObj [(''code'', JStr ''unknown_command''), (''message'', JStr (''Unknown command: '' @ cmd))]"

text \<open>A request for a command that is not registered, and what the runtime supplies to it.\<close>

definition unknown_request :: request where
  "unknown_request = \<lparr>rq_command = ''does-not-exist'', rq_params = JObj [], rq_timeout = None\<rparr>"

definition first_supplies :: supplies where
  "first_supplies = \<lparr>new_id = ''req-1'', new_timer = 1, clock = 1000, new_socket = Inr 2\<rparr>"

text \<open>A URI is cached when the map holds a content for it that is not the placeholder \<^verbatim>\<open>null\<close>.\<close>

definition cached :: "string \<Rightarrow> client \<Rightarrow> bool" where
  "cached u c = (case availableResources c u of Some v \<Rightarrow> v \<noteq> JNull | None \<Rightarrow> False)"

text \<open>
  The callers that are waiting for a command: those of the pending commands, of the
  queued reactions, and of the \<^verbatim>\<open>sendCommand\<close> calls that wait for a connection. A
  content \<open>v\<close> is served for a URI when it is cached, is not the placeholder \<^verbatim>\<open>null\<close>, and
  no \<^verbatim>\<open>getResource\<close> call for the URI is waiting.
\<close>

fun waiter_caller :: "waiter \<Rightarrow> caller option" where
  "waiter_caller (BySend rq sp who) = Some who"
| "waiter_caller w = None"

fun task_caller :: "task \<Rightarrow> caller option" where
  "task_caller (ConnectSettled w res) = waiter_caller w"
| "task_caller (CommandSettled who res) = Some who"

definition awaiting :: "client \<Rightarrow> caller set" where
  "awaiting c =
     {who. \<exists>entry \<in> set (pendingCommands c). awaited_by (snd entry) = who} \<union>
     {who. \<exists>t \<in> set (microtasks c). task_caller t = Some who} \<union>
     {who. \<exists>sk \<in> ran (sockets c). \<exists>w. connect_promise sk = Some w \<and> waiter_caller w = Some who}"

definition served :: "string \<Rightarrow> json \<Rightarrow> client \<Rightarrow> bool" where
  "served u v c \<longleftrightarrow>
     availableResources c u = Some v \<and> v \<noteq> JNull \<and> AwaitGetResource u \<notin> awaiting c"

text \<open>
  Two \<^verbatim>\<open>getResource('docs/readme')\<close> calls before any response: both miss the cache and
  both send. The server answers the first with the content \<^verbatim>\<open>v1\<close>, and the second, the
  resource having changed, with \<^verbatim>\<open>v2\<close>.
\<close>

definition resource_response :: "string \<Rightarrow> string \<Rightarrow> string + json" where
  "resource_response rid content =
     Inr (JObj [(''id'', JStr rid), (''success'', JBool True), (''resource'', JStr content),
                (''timestamp'', JStr ''2025-01-01T00:00:00.000Z'')])"

definition supplies_for :: "string \<Rightarrow> nat \<Rightarrow> supplies" where
  "supplies_for rid h = \<lparr>new_id = rid, new_timer = h, clock = 1000, new_socket = Inr 2\<rparr>"

definition first_answered :: "job list" where
  "first_answered =
     [CallGetResource ''docs/readme'' (supplies_for ''req-1'' 1),
      CallGetResource ''docs/readme'' (supplies_for ''req-2'' 2),
      SocketEvents 1 [SockMessage (resource_response ''req-1'' ''v1'') ''ctx-1'']]"

definition second_answered :: "job list" where
  "second_answered =
     first_answered @ [SocketEvents 1 [SockMessage (resource_response ''req-2'' ''v2'') ''ctx-1'']]"

text \<open>One call, answered; then a listing of the resources and a call for another URI.\<close>

definition cached_client :: client where
  "cached_client =
     run [CallGetResource ''docs/readme'' (supplies_for ''req-1'' 1),
          SocketEvents 1 [SockMessage (resource_response ''req-1'' ''v1'') ''ctx-1'']] open_client"

definition later_jobs :: "job list" where
  "later_jobs =
     [CallListResources (JObj []) (supplies_for ''req-2'' 2),
      SocketEvents 1 [SockMessage
        (Inr (JObj [(''id'', JStr ''req-2''), (''success'', JBool True),
                    (''resources'', JArr [JStr ''docs/readme'', JStr ''docs/api'']),
                    (''timestamp'', JStr ''2025-01-01T00:00:05.000Z'')])) ''ctx-1''],
      CallGetResource ''docs/api'' (supplies_for ''req-3'' 3)]"

section \<open>Properties of objects\<close>

lemma digits_eval:
  "n < 10 \<Longrightarrow> digits n = [digit_char n]"
  "\<not> n < 10 \<Longrightarrow> digits n = digits (n div 10) @ [digit_char (n mod 10)]"
  by (subst digits.simps, simp)+

lemmas key_eval = array_index_def digit_of_def digit_char_def digits_eval

lemma ai_id [simp]: "array_index ''id'' = None" "array_index ''timestamp'' = None"
  by (simp_all add: key_eval)

lemma map_of_None_iff: "map_of obj k = None \<longleftrightarrow> k \<notin> fst ` set obj"
  by (simp add: map_of_eq_None_iff)

lemma update_fresh: "k \<notin> fst ` set xs \<Longrightarrow> AList.update k v xs = xs @ [(k, v)]"
  by (induction xs) auto

lemma update_present:
  "k \<in> fst ` set xs \<Longrightarrow> distinct (map fst xs) \<Longrightarrow>
   AList.update k v xs = map (\<lambda>(a, b). if a = k then (a, v) else (a, b)) xs"
proof (induction xs)
  case Nil
  then show ?case by simp
next
  case (Cons p ps)
  show ?case
  proof (cases "fst p = k")
    case True
    with Cons.prems have "k \<notin> fst ` set ps" by auto
    then have "map (\<lambda>(a, b). if a = k then (a, v) else (a, b)) ps = ps"
      by (induction ps) auto
    with True show ?thesis by (cases p) simp
  next
    case False
    with Cons show ?thesis by (cases p) auto
  qed
qed

lemma update_member: "distinct (map fst xs) \<Longrightarrow> (k, v) \<in> set xs \<Longrightarrow> AList.update k v xs = xs"
  by (induction xs) (auto simp: rev_image_eqI)

lemma update_same_keys: "map_of obj k \<noteq> None \<Longrightarrow> map fst (AList.update k v obj) = map fst obj"
  by (simp add: update_keys map_of_eq_None_iff)

lemma array_index_inj: "array_index a = Some n \<Longrightarrow> array_index b = Some n \<Longrightarrow> a = b"
  by (auto simp: array_index_def split: if_splits option.splits)

lemma set_property_present:
  "k \<in> fst ` set obj \<Longrightarrow> set_property k v obj = AList.update k v obj"
  by (simp add: set_property_def map_of_None_iff)

lemma set_property_name:
  "k \<notin> fst ` set obj \<Longrightarrow> array_index k = None \<Longrightarrow> set_property k v obj = obj @ [(k, v)]"
  by (simp add: set_property_def map_of_None_iff)

lemma set_property_last:
  assumes "k \<notin> fst ` set obj" and "\<forall>e \<in> set obj. key_before (fst e) k"
  shows "set_property k v obj = obj @ [(k, v)]"
proof (cases "array_index k")
  case None
  then show ?thesis using assms(1) by (simp add: set_property_def map_of_None_iff)
next
  case (Some n)
  have "\<forall>e \<in> set obj. index_before n e"
    using assms(2) Some by (auto simp: key_before_def index_before_def split: option.splits)
  then have "takeWhile (index_before n) obj = obj" "dropWhile (index_before n) obj = []"
    by auto
  then show ?thesis using assms(1) Some by (simp add: set_property_def map_of_None_iff)
qed

lemma spread_append:
  "js_object (tgt @ src) \<Longrightarrow> spread src tgt = tgt @ src"
proof (induction src arbitrary: tgt)
  case Nil
  then show ?case by (simp add: spread_def)
next
  case (Cons p ps)
  obtain k v where p: "p = (k, v)" by (cases p)
  from Cons.prems p have "k \<notin> fst ` set tgt" and "\<forall>e \<in> set tgt. key_before (fst e) k"
    by (auto simp: js_object_def sorted_wrt_append)
  then have "set_property k v tgt = tgt @ [(k, v)]"
    by (rule set_property_last)
  then have "spread (p # ps) tgt = spread ps (tgt @ [(k, v)])"
    by (simp add: spread_def p)
  also have "\<dots> = (tgt @ [(k, v)]) @ ps"
    using Cons.prems p by (intro Cons.IH) simp
  finally show ?case by (simp add: p)
qed

lemma spread_copy: "js_object d \<Longrightarrow> spread d [] = d"
  using spread_append [of "[]" d] by simp

lemma spread_members: "distinct (map fst tgt) \<Longrightarrow> set src \<subseteq> set tgt \<Longrightarrow> spread src tgt = tgt"
proof (induction src)
  case Nil
  then show ?case by (simp add: spread_def)
next
  case (Cons p ps)
  then have "(fst p, snd p) \<in> set tgt" by auto
  then have "map_of tgt (fst p) \<noteq> None"
    by (metis map_of_None_iff fst_conv image_eqI)
  moreover have "AList.update (fst p) (snd p) tgt = tgt"
    using Cons.prems by (intro update_member) auto
  ultimately have "set_property (fst p) (snd p) tgt = tgt"
    by (simp add: set_property_def)
  moreover have "spread (p # ps) tgt = spread ps (set_property (fst p) (snd p) tgt)"
    by (simp add: spread_def case_prod_unfold)
  ultimately show ?case using Cons by simp
qed


lemma spread_twice: "spread (a @ b) tgt = spread b (spread a tgt)"
  by (simp add: spread_def)

lemma js_object_Nil [simp]: "js_object []"
  by (simp add: js_object_def)

lemma js_object_keys: "map fst a = map fst b \<Longrightarrow> js_object a = js_object b"
  by (simp add: js_object_def)

lemma key_before_name: "array_index k = None \<Longrightarrow> key_before a k"
  by (simp add: key_before_def split: option.splits)

lemma js_object_set_property:
  assumes "js_object obj"
  shows "js_object (set_property k v obj)"
proof (cases "map_of obj k")
  case (Some a)
  then show ?thesis
    using assms js_object_keys [OF update_same_keys [of obj k v]] by (simp add: set_property_def)
next
  case None
  then have nk: "k \<notin> fst ` set obj" by (simp add: map_of_None_iff)
  show ?thesis
  proof (cases "array_index k")
    case N: None
    then show ?thesis
      using assms None nk
      by (auto simp: set_property_def js_object_def sorted_wrt_append key_before_name)
  next
    case (Some n)
    let ?P = "index_before n :: string \<times> 'a \<Rightarrow> bool"
    let ?a = "takeWhile ?P obj" and ?b = "dropWhile ?P obj"
    have split: "obj = ?a @ ?b" by simp
    have srt: "sorted_wrt key_before (map fst ?a @ map fst ?b)"
      using assms by (metis js_object_def map_append split)
    have a: "\<forall>e \<in> set ?a. key_before (fst e) k"
      using Some by (auto simp: key_before_def index_before_def dest!: set_takeWhileD split: option.splits)
    have b: "key_before k (fst e)" if "e \<in> set ?b" for e
    proof (cases ?b)
      case Nil
      with that show ?thesis by simp
    next
      case (Cons f fs)
      have nf: "\<not> ?P f" using Cons by (metis hd_dropWhile list.sel(1) list.distinct(1))
      have fk: "fst f \<noteq> k" using nk Cons by (metis image_eqI list.set_intros(1) set_dropWhileD)
      have kf: "key_before k (fst f)"
      proof (cases "array_index (fst f)")
        case None
        then show ?thesis by (rule key_before_name)
      next
        case F: (Some x)
        with nf have "\<not> x < n" by (simp add: index_before_def)
        moreover have "x \<noteq> n" using F Some fk array_index_inj by blast
        ultimately show ?thesis using F Some by (simp add: key_before_def)
      qed
      show ?thesis
      proof (cases "e = f")
        case True
        with kf show ?thesis by simp
      next
        case False
        with that Cons have "e \<in> set fs" by simp
        moreover have "sorted_wrt key_before (map fst (f # fs))"
          using srt Cons by (simp add: sorted_wrt_append)
        ultimately have "key_before (fst f) (fst e)" by auto
        with kf Some show ?thesis
          by (auto simp: key_before_def split: option.splits)
      qed
    qed
    have d: "distinct (map fst ?a @ map fst ?b)"
      using assms by (metis js_object_def map_append split)
    have nka: "k \<notin> fst ` set ?a" and nkb: "k \<notin> fst ` set ?b"
      using nk by (auto dest: set_takeWhileD set_dropWhileD)
    have "js_object (?a @ [(k, v)] @ ?b)"
      unfolding js_object_def
      using srt d a b nka nkb by (auto simp: sorted_wrt_append)
    then show ?thesis using None Some by (simp add: set_property_def)
  qed
qed

lemma js_object_spread: "js_object tgt \<Longrightarrow> js_object (spread src tgt)"
  by (induction src arbitrary: tgt) (auto simp: spread_def js_object_set_property)

lemma js_object_parts: "js_object obj \<Longrightarrow> obj = index_part obj @ name_part obj"
proof (induction obj)
  case Nil
  then show ?case by (simp add: index_part_def name_part_def)
next
  case (Cons e es)
  then have IH: "es = index_part es @ name_part es"
    by (simp add: js_object_def)
  show ?case
  proof (cases "array_index (fst e)")
    case (Some n)
    then show ?thesis using IH by (simp add: index_part_def name_part_def)
  next
    case None
    have "\<forall>x \<in> set es. array_index (fst x) = None"
      using Cons.prems None by (auto simp: js_object_def key_before_def split: option.splits)
    then have "index_part es = []" "name_part es = es"
      by (auto simp: index_part_def name_part_def filter_empty_conv filter_id_conv)
    then show ?thesis using None by (simp add: index_part_def name_part_def)
  qed
qed


lemma index_part_keys: "e \<in> set (index_part obj) \<Longrightarrow> array_index (fst e) \<noteq> None"
  and name_part_keys: "e \<in> set (name_part obj) \<Longrightarrow> array_index (fst e) = None"
  by (simp_all add: index_part_def name_part_def)

text \<open>Spreading index keys, in ascending order, over a list whose index keys are smaller.\<close>

lemma spread_indices:
  assumes "\<forall>e \<in> set S. array_index (fst e) = None"
    and "\<forall>e \<in> set (P @ I). array_index (fst e) \<noteq> None"
    and "sorted_wrt key_before (map fst (P @ I))"
  shows "spread I (P @ S) = P @ I @ S"
  using assms(2,3)
proof (induction I arbitrary: P)
  case Nil
  then show ?case by (simp add: spread_def)
next
  case (Cons e I)
  obtain k v where e: "e = (k, v)" by (cases e)
  from Cons.prems(1) e obtain n where n: "array_index k = Some n" by auto
  have before: "\<forall>x \<in> set P. index_before n x"
    using Cons.prems e n by (auto simp: sorted_wrt_append key_before_def index_before_def split: option.splits)
  have notS: "\<forall>x \<in> set S. \<not> index_before n x"
    using assms(1) by (simp add: index_before_def)
  have fresh: "map_of (P @ S) k = None"
  proof -
    have "k \<notin> fst ` set S" using assms(1) n by force
    moreover have "k \<notin> fst ` set P"
    proof
      assume "k \<in> fst ` set P"
      then obtain x where "x \<in> set P" "fst x = k" by auto
      with before n show False by (auto simp: index_before_def)
    qed
    ultimately show ?thesis by (simp add: map_of_None_iff image_Un)
  qed
  have tw: "takeWhile (index_before n) (P @ S) = P"
    using before notS by (cases S) (auto simp: takeWhile_append)
  have dw: "dropWhile (index_before n) (P @ S) = S"
    using before notS by (cases S) (auto simp: dropWhile_append)
  have "set_property k v (P @ S) = (P @ [(k, v)]) @ S"
    using fresh n tw dw by (simp add: set_property_def)
  then have "spread (e # I) (P @ S) = spread I ((P @ [e]) @ S)"
    by (simp add: spread_def e)
  also have "\<dots> = (P @ [e]) @ I @ S"
    using Cons.prems by (intro Cons.IH) simp_all
  finally show ?case by simp
qed

text \<open>Spreading named keys: a key that is there takes the new value, the others are appended.\<close>

lemma spread_names:
  assumes "\<forall>e \<in> set N. array_index (fst e) = None" and "distinct (map fst N)"
    and "distinct (map fst T)"
  shows "spread N T =
           map (\<lambda>(k, v). (k, case map_of N k of Some v' \<Rightarrow> v' | None \<Rightarrow> v)) T @
           filter (\<lambda>e. fst e \<notin> fst ` set T) N"
  using assms
proof (induction N arbitrary: T)
  case Nil
  then show ?case by (simp add: spread_def case_prod_unfold)
next
  case (Cons e N)
  obtain k v where e: "e = (k, v)" by (cases e)
  have kN: "k \<notin> fst ` set N" and name: "array_index k = None"
    using Cons.prems e by auto
  then have mN: "map_of N k = None" by (simp add: map_of_None_iff)
  show ?case
  proof (cases "k \<in> fst ` set T")
    case True
    let ?T = "map (\<lambda>(a, b). if a = k then (a, v) else (a, b)) T"
    have up: "set_property k v T = ?T"
      using True Cons.prems(3) by (simp add: set_property_def map_of_None_iff update_present)
    have keys: "map fst ?T = map fst T"
      by (induction T) auto
    then have keys': "fst ` set ?T = fst ` set T"
      by (metis list.set_map)
    have "spread (e # N) T = spread N ?T"
      using up by (simp add: spread_def e)
    also have "\<dots> = map (\<lambda>(k, v). (k, case map_of N k of Some v' \<Rightarrow> v' | None \<Rightarrow> v)) ?T @
           filter (\<lambda>e. fst e \<notin> fst ` set ?T) N"
    proof (intro Cons.IH)
      show "distinct (map fst ?T)" using Cons.prems(3) by (simp only: keys)
    qed (use Cons.prems in simp_all)
    also have "map (\<lambda>(k, v). (k, case map_of N k of Some v' \<Rightarrow> v' | None \<Rightarrow> v)) ?T =
        map (\<lambda>(a, b). (a, case map_of (e # N) a of Some v' \<Rightarrow> v' | None \<Rightarrow> b)) T"
      using mN by (auto simp: e)
    also have "filter (\<lambda>e. fst e \<notin> fst ` set ?T) N = filter (\<lambda>x. fst x \<notin> fst ` set T) N"
      by (simp only: keys')
    also have "\<dots> = filter (\<lambda>x. fst x \<notin> fst ` set T) (e # N)"
      using True by (simp add: e)
    finally show ?thesis .
  next
    case False
    have up: "set_property k v T = T @ [(k, v)]"
      using False name by (simp add: set_property_def map_of_None_iff)
    have "spread (e # N) T = spread N (T @ [(k, v)])"
      using up by (simp add: spread_def e)
    also have "\<dots> = map (\<lambda>(k, v). (k, case map_of N k of Some v' \<Rightarrow> v' | None \<Rightarrow> v)) (T @ [(k, v)]) @
           filter (\<lambda>e. fst e \<notin> fst ` set (T @ [(k, v)])) N"
      using Cons.prems False by (intro Cons.IH) simp_all
    also have "map (\<lambda>(k, v). (k, case map_of N k of Some v' \<Rightarrow> v' | None \<Rightarrow> v)) (T @ [(k, v)]) =
        map (\<lambda>(a, b). (a, case map_of (e # N) a of Some v' \<Rightarrow> v' | None \<Rightarrow> b)) T @ [(k, v)]"
      using mN False by (auto simp: e rev_image_eqI)
    also have "filter (\<lambda>e. fst e \<notin> fst ` set (T @ [(k, v)])) N = filter (\<lambda>x. fst x \<notin> fst ` set T) N"
      using kN by (intro filter_cong) auto
    finally show ?thesis using False by (simp add: e)
  qed
qed


lemma map_of_name_part:
  "array_index k = None \<Longrightarrow> map_of (name_part obj) k = map_of obj k"
  by (induction obj) (auto simp: name_part_def)

lemma spread_after_id:
  assumes "js_object result"
  shows "spread result [(''id'', x)] =
           index_part result @
           [(''id'', case map_of result ''id'' of Some v \<Rightarrow> v | None \<Rightarrow> x)] @
           filter (\<lambda>e. fst e \<noteq> ''id'') (name_part result)"
proof -
  let ?I = "index_part result" and ?N = "name_part result"
  have parts: "result = ?I @ ?N"
    using assms by (rule js_object_parts)
  have srt: "sorted_wrt key_before (map fst ?I)" and dI: "distinct (map fst ?I)"
    and dN: "distinct (map fst ?N)"
    using assms unfolding js_object_def index_part_def name_part_def
    by (simp_all add: sorted_wrt_map sorted_wrt_filter distinct_map_filter)
  have idx: "\<forall>e \<in> set ?I. array_index (fst e) \<noteq> None"
    and nam: "\<forall>e \<in> set ?N. array_index (fst e) = None"
    by (simp_all add: index_part_def name_part_def)
  have "spread ?I ([] @ [(''id'', x)]) = [] @ ?I @ [(''id'', x)]"
    using idx srt by (intro spread_indices) simp_all
  then have one: "spread ?I [(''id'', x)] = ?I @ [(''id'', x)]"
    by simp
  have dT: "distinct (map fst (?I @ [(''id'', x)]))"
    using dI idx by force
  have mI: "map_of ?N (fst e) = None" if "e \<in> set ?I" for e
    using that idx nam by (force simp: map_of_None_iff)
  have "spread result [(''id'', x)] = spread ?N (spread ?I [(''id'', x)])"
    by (subst parts) (rule spread_twice)
  also have "\<dots> = spread ?N (?I @ [(''id'', x)])"
    by (simp only: one)
  also have "\<dots> =
      map (\<lambda>(k, v). (k, case map_of ?N k of Some v' \<Rightarrow> v' | None \<Rightarrow> v)) (?I @ [(''id'', x)]) @
      filter (\<lambda>e. fst e \<notin> fst ` set (?I @ [(''id'', x)])) ?N"
    using nam dN dT by (rule spread_names)
  also have "map (\<lambda>(k, v). (k, case map_of ?N k of Some v' \<Rightarrow> v' | None \<Rightarrow> v)) (?I @ [(''id'', x)]) =
      ?I @ [(''id'', case map_of result ''id'' of Some v \<Rightarrow> v | None \<Rightarrow> x)]"
    using mI by (auto simp: map_of_name_part map_idI case_prod_unfold split: option.splits)
  also have "filter (\<lambda>e. fst e \<notin> fst ` set (?I @ [(''id'', x)])) ?N =
      filter (\<lambda>e. fst e \<noteq> ''id'') ?N"
    using idx nam by (intro filter_cong) force+
  finally show ?thesis by simp
qed

lemma literal_with_timestamp:
  assumes "js_object result"
  shows "set_property ''timestamp'' ts (spread result [(''id'', x)]) =
           index_part result @
           [(''id'', case map_of result ''id'' of Some v \<Rightarrow> v | None \<Rightarrow> x)] @
           (if ''timestamp'' \<in> fst ` set result
            then map (\<lambda>(k, v). if k = ''timestamp'' then (k, ts) else (k, v))
                   (filter (\<lambda>e. fst e \<noteq> ''id'') (name_part result))
            else filter (\<lambda>e. fst e \<noteq> ''id'') (name_part result) @ [(''timestamp'', ts)])"
proof -
  let ?I = "index_part result" and ?N = "filter (\<lambda>e. fst e \<noteq> ''id'') (name_part result)"
  let ?idv = "case map_of result ''id'' of Some v \<Rightarrow> v | None \<Rightarrow> x"
  let ?L = "?I @ [(''id'', ?idv)] @ ?N"
  have L: "spread result [(''id'', x)] = ?L"
    using assms by (rule spread_after_id)
  have obj: "js_object ?L"
    unfolding L [symmetric] by (rule js_object_spread) (simp add: js_object_def)
  then have dL: "distinct (map fst ?L)"
    by (simp add: js_object_def)
  have idx: "\<forall>e \<in> set ?I. fst e \<noteq> ''timestamp''"
    by (auto simp: index_part_def)
  have keys: "''timestamp'' \<in> fst ` set result \<longleftrightarrow> ''timestamp'' \<in> fst ` set ?N"
    by (force simp: name_part_def)
  show ?thesis
  proof (cases "''timestamp'' \<in> fst ` set result")
    case True
    then have mem: "''timestamp'' \<in> fst ` set ?L" using keys by auto
    then have "set_property ''timestamp'' ts ?L = AList.update ''timestamp'' ts ?L"
      by (rule set_property_present)
    also have "\<dots> = map (\<lambda>(k, v). if k = ''timestamp'' then (k, ts) else (k, v)) ?L"
      using mem dL by (rule update_present)
    also have "\<dots> = ?I @ [(''id'', ?idv)] @ map (\<lambda>(k, v). if k = ''timestamp'' then (k, ts) else (k, v)) ?N"
      using idx by (auto simp: map_idI case_prod_unfold)
    finally show ?thesis using True by (simp add: L)
  next
    case False
    then have "''timestamp'' \<notin> fst ` set ?L" using keys idx by auto
    then have "set_property ''timestamp'' ts ?L = ?L @ [(''timestamp'', ts)]"
      by (rule set_property_name) simp
    then show ?thesis using False by (simp add: L)
  qed
qed


lemma map_of_set_property: "map_of (set_property k v obj) = (map_of obj)(k \<mapsto> v)"
proof (cases "map_of obj k")
  case (Some a)
  then show ?thesis by (simp add: set_property_def update_conv')
next
  case None
  then have nk: "k \<notin> fst ` set obj" by (simp add: map_of_None_iff)
  show ?thesis
  proof (cases "array_index k")
    case N: None
    then show ?thesis
      using None by (auto simp: set_property_def fun_eq_iff map_add_def split: option.splits)
  next
    case (Some n)
    let ?a = "takeWhile (index_before n) obj" and ?b = "dropWhile (index_before n) obj"
    have nka: "map_of ?a k = None"
      using nk by (auto simp: map_of_None_iff dest: set_takeWhileD)
    have "map_of obj = map_of (?a @ ?b)" by simp
    also have "\<dots> = map_of ?b ++ map_of ?a" by (rule map_of_append)
    finally have o: "map_of obj = map_of ?b ++ map_of ?a" .
    have "map_of (?a @ [(k, v)] @ ?b) = (map_of ?b)(k \<mapsto> v) ++ map_of ?a"
      by (simp add: map_of_append)
    also have "\<dots> = (map_of ?b ++ map_of ?a)(k \<mapsto> v)"
      using nka by (auto simp: fun_eq_iff map_add_def split: option.splits)
    finally show ?thesis using None Some o by (simp add: set_property_def)
  qed
qed

lemma map_of_spread: "map_of (spread src tgt) = map_of tgt ++ map_of (rev src)"
proof (induction src arbitrary: tgt)
  case Nil
  then show ?case by (simp add: spread_def)
next
  case (Cons p ps)
  obtain k v where p: "p = (k, v)" by (cases p)
  have "spread (p # ps) tgt = spread ps (set_property k v tgt)"
    by (simp add: spread_def p)
  then show ?case
    by (auto simp: Cons.IH map_of_set_property p fun_eq_iff map_add_def split: option.splits)
qed

lemma map_of_stringify:
  "distinct (map fst L) \<Longrightarrow> map_of (stringify L) k = (case map_of L k of Some v \<Rightarrow> v | None \<Rightarrow> None)"
proof (induction L arbitrary: k)
  case Nil
  then show ?case by (simp add: stringify_def List.map_filter_simps)
next
  case (Cons e L)
  obtain a b where e: "e = (a, b)" by (cases e)
  have tail: "stringify ((a, b) # L) = (case b of Some v \<Rightarrow> (a, v) # stringify L | None \<Rightarrow> stringify L)"
    by (simp add: stringify_def List.map_filter_simps split: option.splits)
  from Cons.prems e have none: "map_of L a = None"
    by (simp add: map_of_None_iff)
  have IH: "map_of (stringify L) k = (case map_of L k of Some v \<Rightarrow> v | None \<Rightarrow> None)" for k
    using Cons by simp
  show ?case
    using none by (simp add: e tail IH split: option.splits)
qed

lemma map_of_rev_distinct: "distinct (map fst xs) \<Longrightarrow> map_of (rev xs) = map_of xs"
proof (induction xs)
  case Nil
  then show ?case by simp
next
  case (Cons e xs)
  then have "map_of xs (fst e) = None" by (simp add: map_of_None_iff)
  then show ?case
    using Cons by (cases e) (auto simp: map_of_append fun_eq_iff map_add_def split: option.splits)
qed

lemma literal_lookup:
  assumes "js_object result"
  shows "map_of (stringify (set_property ''timestamp'' (Some ts) (spread result [(''id'', x)]))) k =
           (if k = ''timestamp'' then Some ts
            else case map_of result k of
                   Some v \<Rightarrow> v
                 | None \<Rightarrow> if k = ''id'' then x else None)"
proof -
  let ?L = "set_property ''timestamp'' (Some ts) (spread result [(''id'', x)])"
  have "js_object ?L"
    by (intro js_object_set_property js_object_spread) (simp add: js_object_def)
  then have d: "distinct (map fst ?L)"
    by (simp add: js_object_def)
  have dr: "distinct (map fst result)"
    using assms by (simp add: js_object_def)
  have "map_of (rev result) = map_of result"
    using dr by (rule map_of_rev_distinct)
  then have "map_of ?L = ([''id'' \<mapsto> x] ++ map_of result)(''timestamp'' \<mapsto> Some ts)"
    by (simp add: map_of_set_property map_of_spread)
  then show ?thesis
    by (simp add: map_of_stringify [OF d] map_add_def split: option.splits)
qed

section \<open>Properties of the dispatcher\<close>

text \<open>
  Claim C1, as the code has it. Let the command \<open>C\<close> (a non-empty name) of the message
  \<^verbatim>\<open>{id, command: C, params: P}\<close> be registered and let its handler return the object
  \<open>result\<close>. The response is the serialization of the literal
  \<^verbatim>\<open>{id: data.id, ...result, timestamp}\<close>, which holds, in this order: the properties of
  \<open>result\<close> under array indices; the property \<^verbatim>\<open>id\<close>, with the value of the result's own
  \<^verbatim>\<open>id\<close> when it has one and the request's \<^verbatim>\<open>id\<close> otherwise; the other properties of
  \<open>result\<close>, in their order and with their values, where a \<^verbatim>\<open>timestamp\<close> of the result
  keeps its place and takes the time of the dispatch; and that time under \<^verbatim>\<open>timestamp\<close>
  at the end when the result has no such property. So the response has the dispatch time
  under \<^verbatim>\<open>timestamp\<close>, every other property of the result with its value (none for a
  property that holds \<^verbatim>\<open>undefined\<close>), the request's \<^verbatim>\<open>id\<close> when the result has no \<^verbatim>\<open>id\<close>
  property, and nothing else.
\<close>

theorem dispatch_registered_response:
  assumes "tools c = Some t" and "c \<noteq> []"
    and "map_of msg ''command'' = Some (JStr c)"
    and "map_of msg ''id'' = Some i"
    and "map_of msg ''params'' = Some (JObj ps)"
    and "handler t (JObj ps) = Returns result"
    and "js_object result"
  shows "handleMessage tools now (Inr (JObj msg)) =
           stringify
             (index_part result @
              [(''id'', case map_of result ''id'' of Some v \<Rightarrow> v | None \<Rightarrow> Some i)] @
              (if ''timestamp'' \<in> fst ` set result
               then map (\<lambda>(k, v). if k = ''timestamp'' then (k, Some (JStr now)) else (k, v))
                      (filter (\<lambda>e. fst e \<noteq> ''id'') (name_part result))
               else filter (\<lambda>e. fst e \<noteq> ''id'') (name_part result) @
                    [(''timestamp'', Some (JStr now))]))
         \<and> (\<forall>k. map_of (handleMessage tools now (Inr (JObj msg))) k =
                (if k = ''timestamp'' then Some (JStr now)
                 else case map_of result k of
                        Some v \<Rightarrow> v
                      | None \<Rightarrow> if k = ''id'' then Some i else None))"
proof -
  have response: "handleMessage tools now (Inr (JObj msg)) =
      stringify (set_property ''timestamp'' (Some (JStr now)) (spread result [(''id'', Some i)]))"
    using assms(1-6) by (simp add: handleMessage_def)
  show ?thesis
    unfolding response
    using literal_with_timestamp [OF assms(7), of "Some (JStr now)" "Some i"]
      literal_lookup [OF assms(7), of "JStr now" "Some i"]
    by simp
qed

text \<open>
  The request \<^verbatim>\<open>{id: 'req-1', command: 'lookup', params: {}}\<close>, whose handler returns
  \<^verbatim>\<open>{b: 1, 0: 'a', note: undefined}\<close>.
\<close>

theorem dispatch_registered_response_witness:
  "handleMessage lookup_tools ''2025-01-01T00:00:00.000Z''
     (Inr (JObj [(''id'', JStr ''req-1''), (''command'', JStr ''lookup''), (''params'', JObj [])])) =
   [(''0'', JStr ''a''), (''id'', JStr ''req-1''), (''b'', JNum 1),
    (''timestamp'', JStr ''2025-01-01T00:00:00.000Z'')]"
proof -
  let ?t = "\<lparr>name = ''lookup'', handler = lookup_handler, schema = JObj []\<rparr>"
  let ?result = "[(''0'', Some (JStr ''a'')), (''b'', Some (JNum 1)), (''note'', None)]"
  have reg: "lookup_tools ''lookup'' = Some ?t"
    by (simp add: lookup_tools_def registerTool_def)
  have ret: "handler ?t (JObj []) = Returns ?result"
    by (simp add: lookup_handler_def)
  have obj: "js_object ?result"
    by (simp add: js_object_def key_before_def key_eval)
  show ?thesis
    using reg ret obj
      dispatch_registered_response [where tools = lookup_tools and c = "''lookup''"
        and t = ?t
        and msg = "[(''id'', JStr ''req-1''), (''command'', JStr ''lookup''), (''params'', JObj [])]"
        and i = "JStr ''req-1''" and ps = "[]"
        and result = ?result and now = "''2025-01-01T00:00:00.000Z''"]
    by (simp add: index_part_def name_part_def key_eval stringify_def List.map_filter_simps)
qed

text \<open>
  Claim C1 as it is written fails where the handler's result has an \<^verbatim>\<open>id\<close> of its own:
  the request \<^verbatim>\<open>{id: 'req-1', command: 'get-task', params: {}}\<close> is answered with
  \<^verbatim>\<open>id: 'task-7'\<close>, and the request's \<^verbatim>\<open>id\<close> is not in the response; the property \<^verbatim>\<open>id\<close>
  has moved before \<^verbatim>\<open>success\<close>.
\<close>

theorem dispatch_id_not_echoed_counterexample:
  "handleMessage task_tools ''2025-01-01T00:00:00.000Z''
     (Inr (JObj [(''id'', JStr ''req-1''), (''command'', JStr ''get-task''), (''params'', JObj [])])) =
   [(''id'', JStr ''task-7''), (''success'', JBool True),
    (''timestamp'', JStr ''2025-01-01T00:00:00.000Z'')]
   \<and> map_of (handleMessage task_tools ''2025-01-01T00:00:00.000Z''
        (Inr (JObj [(''id'', JStr ''req-1''), (''command'', JStr ''get-task''), (''params'', JObj [])])))
        ''id'' \<noteq> Some (JStr ''req-1'')"
  by (simp add: handleMessage_def task_tools_def task_handler_def registerTool_def spread_def
        set_property_def key_eval stringify_def List.map_filter_simps)

text \<open>
  Claim C7. A payload that \<^verbatim>\<open>JSON.parse\<close> rejects is answered with an error and a
  timestamp and no \<^verbatim>\<open>id\<close>; a parsed payload without a \<^verbatim>\<open>command\<close> property is answered
  with an error that carries the payload's \<^verbatim>\<open>id\<close> when it has one. Every call sends a
  response: \<open>handleMessage\<close> has a value on each argument.
\<close>

theorem malformed_and_missing_command:
  "handleMessage tools now (Inl err) =
     [(''error'', JStr (''Error parsing message: '' @ err)), (''timestamp'', JStr now)]
   \<and> (property data ''command'' = None \<longrightarrow>
        (case property data ''id'' of
           Some v \<Rightarrow>
             handleMessage tools now (Inr data) =
               [(''id'', v), (''error'', JStr ''Missing command''), (''timestamp'', JStr now)]
         | None \<Rightarrow>
             handleMessage tools now (Inr data) =
               [(''error'', JStr (if data = JNull
                    then ''Error parsing message: Cannot read properties of null (reading 'command')''
                    else ''Missing command'')),
                (''timestamp'', JStr now)]))"
  by (cases data)
     (auto simp: handleMessage_def parse_error_response_def stringify_def List.map_filter_simps
           split: option.splits)

theorem malformed_and_missing_command_witness:
  "handleMessage Map.empty ''2025-01-01T00:00:00.000Z'' (Inl ''Unexpected token h in JSON at position 0'') =
     [(''error'', JStr ''Error parsing message: Unexpected token h in JSON at position 0''),
      (''timestamp'', JStr ''2025-01-01T00:00:00.000Z'')]
   \<and> property (JObj [(''id'', JStr ''req-9''), (''params'', JObj [])]) ''command'' = None
   \<and> handleMessage Map.empty ''2025-01-01T00:00:00.000Z''
        (Inr (JObj [(''id'', JStr ''req-9''), (''params'', JObj [])])) =
     [(''id'', JStr ''req-9''), (''error'', JStr ''Missing command''),
      (''timestamp'', JStr ''2025-01-01T00:00:00.000Z'')]"
  using malformed_and_missing_command [of Map.empty "''2025-01-01T00:00:00.000Z''"
      "''Unexpected token h in JSON at position 0''"
      "JObj [(''id'', JStr ''req-9''), (''params'', JObj [])]"]
  by simp

section \<open>Properties of the context manager\<close>

lemma export_steps_back:
  "map_raise (export_step toISO) xs = Inr ys \<Longrightarrow>
   \<forall>st \<in> set xs. \<forall>t \<in> set_option (step_timestamp st). reads_back toISO newDate t \<Longrightarrow>
   map_raise (export_step toISO) (map (import_step newDate) ys) = Inr ys"
proof (induction xs arbitrary: ys)
  case Nil
  then show ?case by simp
next
  case (Cons x xs)
  then show ?case
    by (auto simp: export_step_def import_step_def toISOString_def reads_back_def
             split: sum.splits option.splits)
qed

lemma export_history_back:
  "map_raise (export_snapshot toISO) xs = Inr ys \<Longrightarrow>
   \<forall>item \<in> set xs. \<forall>t \<in> set_option (snap_timestamp item). reads_back toISO newDate t \<Longrightarrow>
   map_raise (export_snapshot toISO) (map (import_snapshot newDate) ys) = Inr ys"
proof (induction xs arbitrary: ys)
  case Nil
  then show ?case by simp
next
  case (Cons x xs)
  then show ?case
    by (auto simp: export_snapshot_def import_snapshot_def toISOString_def reads_back_def
             split: sum.splits option.splits)
qed

lemma getContext_Some: "k \<noteq> [] \<Longrightarrow> getContext m (Some k) = contexts m k"
  by (simp add: getContext_def)

text \<open>
  Claim C8. Let the session \<open>c\<close> be stored under its identifier and let its export succeed
  with the serialized context \<open>ser\<close>. Importing \<open>ser\<close>, into the same manager or into one
  that does not hold the identifier, returns the identifier, and exporting the imported
  session gives \<open>ser\<close> again: identifier, both timestamps, data, steps and history. The
  data is a JavaScript object (its keys are distinct and in property order) and the
  runtime reads back the text of each instant of the session.
\<close>

theorem export_import_round_trip:
  assumes stored: "contexts m (ctx_id c) = Some c"
    and ident: "ctx_id c \<noteq> []"
    and exp: "exportContext toISO m (Some (ctx_id c)) = Inr (Some ser)"
    and keys: "js_object (ctx_data c)"
    and iso: "\<forall>t \<in> ctx_instants c. reads_back toISO newDate t"
    and target: "m' = m \<or> contexts m' (ctx_id c) = None"
  shows "case importContext newDate fresh t1 t2 ser m' of
           (m'', r) \<Rightarrow> r = Some (ctx_id c) \<and> exportContext toISO m'' r = Inr (Some ser)"
proof -
  from exp stored ident obtain cr up ss hs where
    cr: "created c = Some cr" and up: "updated c = Some up"
    and ss: "map_raise (export_step toISO) (steps c) = Inr ss"
    and hs: "map_raise (export_snapshot toISO) (history c) = Inr hs"
    and ser: "ser = \<lparr>e_id = ctx_id c, e_created = toISO cr, e_updated = toISO up,
                     e_data = ctx_data c, e_steps = ss, e_history = hs\<rparr>"
    by (auto simp: exportContext_def getContext_Some toISOString_def split: sum.splits option.splits)
  have rcr: "reads_back toISO newDate cr" and rup: "reads_back toISO newDate up"
    using iso cr up by (auto simp: ctx_instants_def)
  have ss': "map_raise (export_step toISO) (map (import_step newDate) ss) = Inr ss"
    using ss iso by (intro export_steps_back) (auto simp: ctx_instants_def)
  have hs': "map_raise (export_snapshot toISO) (map (import_snapshot newDate) hs) = Inr hs"
    using hs iso by (intro export_history_back) (auto simp: ctx_instants_def)
  have copy: "spread (ctx_data c) [] = ctx_data c"
    using keys by (rule spread_copy)
  have merge: "spread (ctx_data c) (spread (ctx_data c) []) = ctx_data c"
    using keys by (simp add: copy spread_members js_object_def)
  from target show ?thesis
  proof
    assume "m' = m"
    then show ?thesis
      using stored ident rcr rup ss' hs' merge
      by (simp add: importContext_def createContext_def update_found_def Let_def ser
            exportContext_def getContext_Some toISOString_def reads_back_def)
  next
    assume "contexts m' (ctx_id c) = None"
    then show ?thesis
      using ident rcr rup ss' hs' copy
      by (simp add: importContext_def createContext_def Let_def ser
            exportContext_def getContext_Some toISOString_def reads_back_def)
  qed
qed

text \<open>The session \<^verbatim>\<open>s1\<close>, exported and imported into the manager that holds it.\<close>

theorem export_import_round_trip_witness:
  "exportContext sample_toISO sample_manager (Some ''s1'') = Inr (Some sample_exported)
   \<and> (case importContext sample_newDate ''k3j9x2a'' 90000 90000 sample_exported sample_manager of
         (m'', r) \<Rightarrow> r = Some ''s1'' \<and> exportContext sample_toISO m'' r = Inr (Some sample_exported))"
proof -
  have stored: "contexts sample_manager (ctx_id sample_context) = Some sample_context"
    by (simp add: sample_manager_def sample_context_def)
  have ident: "ctx_id sample_context \<noteq> []"
    by (simp add: sample_context_def)
  have exp: "exportContext sample_toISO sample_manager (Some (ctx_id sample_context)) =
      Inr (Some sample_exported)"
    by (simp add: exportContext_def getContext_def sample_manager_def sample_context_def
          sample_exported_def toISOString_def sample_toISO_def export_step_def export_snapshot_def)
  have keys: "js_object (ctx_data sample_context)"
    by (simp add: sample_context_def js_object_def key_before_def key_eval)
  have iso: "\<forall>t \<in> ctx_instants sample_context. reads_back sample_toISO sample_newDate t"
    by (simp add: ctx_instants_def sample_context_def reads_back_def sample_toISO_def
          sample_newDate_def)
  have target: "sample_manager = sample_manager \<or> contexts sample_manager (ctx_id sample_context) = None"
    by simp
  have id: "ctx_id sample_context = ''s1''"
    by (simp add: sample_context_def)
  show ?thesis
    using exp export_import_round_trip [OF stored ident exp keys iso target,
        of "''k3j9x2a''" 90000 90000]
    by (simp add: id)
qed

lemma updates_append: "updates cid (us @ vs) m = updates cid vs (updates cid us m)"
  by (induction us arbitrary: m) auto

lemma updates_max: "maxHistoryLength (updates cid us m) = maxHistoryLength m"
proof (induction us arbitrary: m)
  case Nil
  then show ?case by simp
next
  case (Cons u us)
  obtain t1 t2 d mg where u: "u = (t1, t2, d, mg)" by (cases u)
  have "maxHistoryLength (fst (updateContext [] t1 t2 (Some cid) d mg m)) = maxHistoryLength m"
    by (simp add: updateContext_def createContext_def Let_def split: option.splits)
  then show ?case using Cons.IH u by simp
qed

lemma pre_update_snapshots_snoc:
  "pre_update_snapshots cid (us @ [u]) m =
   pre_update_snapshots cid us m @ [pre_update_snapshot cid (us @ [u]) m (length us)]"
  by (simp add: pre_update_snapshots_def pre_update_snapshot_def nth_append)

lemma push_shift:
  assumes "hist = drop (length log - a) log" and "a \<le> length log"
  shows "(if length (hist @ [x]) > n then tl (hist @ [x]) else hist @ [x]) =
         drop (length (log @ [x]) - (if a + 1 > n then a else a + 1)) (log @ [x])"
proof -
  have len: "length hist = a" using assms by simp
  show ?thesis
  proof (cases "a + 1 > n")
    case False
    then show ?thesis using assms len by simp
  next
    case True
    show ?thesis
    proof (cases a)
      case 0
      then show ?thesis using True len by simp
    next
      case (Suc k)
      with len have "hist \<noteq> []" by auto
      then have "tl (hist @ [x]) = tl hist @ [x]" by simp
      also have "tl hist = drop (Suc (length log - a)) log"
        using assms by (simp add: drop_Suc tl_drop)
      also have "drop (Suc (length log - a)) log @ [x] = drop (Suc (length log - a)) (log @ [x])"
        using assms(2) Suc by simp
      also have "Suc (length log - a) = length (log @ [x]) - a"
        using assms(2) by simp
      finally show ?thesis using True len by simp
    qed
  qed
qed

text \<open>
  The number of entries that a history of \<open>h\<close> entries has after \<open>k\<close> updates under the
  maximum \<open>n\<close>, and what one more update makes of it.
\<close>

lemma kept_step:
  "(if max h (min (h + k) n) + 1 > n then max h (min (h + k) n) else max h (min (h + k) n) + 1) =
   max h (min (h + Suc k) n)"
  by auto

lemma history_log:
  assumes "contexts m cid = Some c" and "cid \<noteq> []"
    and "js_object (ctx_data c)"
  shows "\<exists>c'. contexts (updates cid us m) cid = Some c'
           \<and> js_object (ctx_data c')
           \<and> history c' =
               drop (length (history c @ pre_update_snapshots cid us m)
                       - max (length (history c)) (min (length (history c) + length us) (maxHistoryLength m)))
                    (history c @ pre_update_snapshots cid us m)"
proof (induction us rule: rev_induct)
  case Nil
  then show ?case using assms by (simp add: pre_update_snapshots_def)
next
  case (snoc u us)
  let ?log = "history c @ pre_update_snapshots cid us m"
  let ?a = "max (length (history c)) (min (length (history c) + length us) (maxHistoryLength m))"
  from snoc obtain c' where c': "contexts (updates cid us m) cid = Some c'"
    and obj: "js_object (ctx_data c')"
    and hist: "history c' = drop (length ?log - ?a) ?log"
    by blast
  have a: "?a \<le> length ?log"
    by (simp add: pre_update_snapshots_def)
  obtain t1 t2 d mg where u: "u = (t1, t2, d, mg)" by (cases u)
  let ?m = "updates cid us m"
  let ?x = "pre_update_snapshot cid (us @ [u]) m (length us)"
  have x: "?x = \<lparr>snap_timestamp = Some t1, snap_data = spread (ctx_data c') []\<rparr>"
    using c' obj by (simp add: pre_update_snapshot_def u spread_copy)
  have step: "updates cid (us @ [u]) m =
      ?m\<lparr>contexts := (contexts ?m)(cid \<mapsto> update_found (maxHistoryLength m) t1 t2 d mg c')\<rparr>"
    using c' assms(2) by (simp add: updates_append u updateContext_def getContext_Some updates_max)
  have "history (update_found (maxHistoryLength m) t1 t2 d mg c') =
      (if length (history c' @ [?x]) > maxHistoryLength m
       then tl (history c' @ [?x]) else history c' @ [?x])"
    unfolding update_found_def Let_def x [symmetric] by simp
  also have "\<dots> = drop (length (?log @ [?x])
                        - (if ?a + 1 > maxHistoryLength m then ?a else ?a + 1)) (?log @ [?x])"
    using hist a by (rule push_shift)
  also have "(if ?a + 1 > maxHistoryLength m then ?a else ?a + 1) =
      max (length (history c)) (min (length (history c) + Suc (length us)) (maxHistoryLength m))"
    by (rule kept_step)
  finally have "history (update_found (maxHistoryLength m) t1 t2 d mg c') =
      drop (length (?log @ [?x])
              - max (length (history c)) (min (length (history c) + Suc (length us)) (maxHistoryLength m)))
           (?log @ [?x])" .
  moreover have "js_object (ctx_data (update_found (maxHistoryLength m) t1 t2 d mg c'))"
    by (simp add: update_found_def Let_def js_object_spread)
  ultimately show ?case
    by (simp add: step pre_update_snapshots_snoc)
qed

lemma createContext_new_session:
  assumes "contexts m cid = None" and "cid \<noteq> []"
  shows "\<exists>c. contexts (fst (createContext fresh t1 t2 (Some cid) d m)) cid = Some c
           \<and> history c = [] \<and> js_object (ctx_data c)"
  using assms by (simp add: createContext_def Let_def js_object_spread)

text \<open>
  Claim C9 as it is written fails for a session whose history is longer than the maximum,
  which \<^verbatim>\<open>importContext\<close> makes: it stores the serialized history whatever its length, and
  \<^verbatim>\<open>updateContext\<close> shifts one entry out for the one that it pushes. The session \<^verbatim>\<open>s2\<close>,
  imported with a history of 12 entries into a manager with the maximum 10, holds 12
  entries after each of 15 updates.
\<close>

theorem history_over_maximum_counterexample:
  "maxHistoryLength imported_manager = 10
   \<and> map_option (\<lambda>c. length (history c)) (contexts imported_manager ''s2'') = Some 12
   \<and> map_option (\<lambda>c. length (history c))
       (contexts (updates ''s2'' (take 1 counting_updates) imported_manager) ''s2'') = Some 12
   \<and> map_option (\<lambda>c. length (history c))
       (contexts (updates ''s2'' counting_updates imported_manager) ''s2'') = Some 12"
  by code_simp

text \<open>
  Claim C9, as the code has it. Under every sequence of \<^verbatim>\<open>updateContext\<close> calls the history
  of a session is the end of the log of its former history followed by the snapshots of
  the data as each call found it, oldest first; it grows by one entry with each call until
  it has as many as the maximum and keeps its length from then on, also when that length
  is over the maximum. So a session whose history is within the maximum stays within it
  (every session that \<^verbatim>\<open>createContext\<close> builds starts with none), and with the maximum 10,
  after 15 calls it holds the snapshots taken by the last 10 calls, in order. The data of
  the session is a JavaScript object.
\<close>

theorem history_bounded_oldest_first:
  assumes "contexts m cid = Some c" and "cid \<noteq> []"
    and "js_object (ctx_data c)"
  shows "\<exists>c'. contexts (updates cid us m) cid = Some c'
           \<and> length (history c') =
               max (length (history c)) (min (length (history c) + length us) (maxHistoryLength m))
           \<and> history c' =
               drop (length (history c) + length us - length (history c'))
                    (history c @ pre_update_snapshots cid us m)
           \<and> (length (history c) \<le> maxHistoryLength m \<longrightarrow>
                 length (history c') \<le> maxHistoryLength m
                 \<and> history c' =
                     drop (length (history c) + length us - maxHistoryLength m)
                          (history c @ pre_update_snapshots cid us m))
           \<and> (length (history c) \<le> maxHistoryLength m \<and> maxHistoryLength m = 10 \<and> length us = 15 \<longrightarrow>
                 history c' = drop 5 (pre_update_snapshots cid us m))"
proof -
  let ?log = "history c @ pre_update_snapshots cid us m"
  let ?a = "max (length (history c)) (min (length (history c) + length us) (maxHistoryLength m))"
  from history_log [OF assms, of us] obtain c' where
    c': "contexts (updates cid us m) cid = Some c'"
    and hist: "history c' = drop (length ?log - ?a) ?log"
    by blast
  have len: "length (pre_update_snapshots cid us m) = length us"
    by (simp add: pre_update_snapshots_def)
  have kept: "length (history c') = ?a"
    using hist len by simp
  have suffix: "history c' = drop (length (history c) + length us - length (history c')) ?log"
    using hist len kept by simp
  have within: "length (history c') \<le> maxHistoryLength m
      \<and> history c' = drop (length (history c) + length us - maxHistoryLength m) ?log"
    if "length (history c) \<le> maxHistoryLength m"
  proof (cases "length (history c) + length us \<le> maxHistoryLength m")
    case True
    then show ?thesis using that suffix kept by simp
  next
    case False
    then have "length (history c') = maxHistoryLength m" using that kept by simp
    then show ?thesis using suffix by simp
  qed
  have last10: "history c' = drop 5 (pre_update_snapshots cid us m)"
    if "length (history c) \<le> maxHistoryLength m \<and> maxHistoryLength m = 10 \<and> length us = 15"
    using that within len by simp
  show ?thesis
    using c' kept suffix within last10 by blast
qed

text \<open>A session created with \<^verbatim>\<open>{n: 0}\<close> and updated fifteen times.\<close>

theorem history_bounded_oldest_first_witness:
  "map_option (\<lambda>c. length (history c))
     (contexts (updates ''s1'' counting_updates counting_manager) ''s1'') = Some 10
   \<and> map_option (\<lambda>c. map snap_data (history c))
     (contexts (updates ''s1'' counting_updates counting_manager) ''s1'') =
     Some [[(''n'', JNum 5)], [(''n'', JNum 6)], [(''n'', JNum 7)], [(''n'', JNum 8)],
           [(''n'', JNum 9)], [(''n'', JNum 10)], [(''n'', JNum 11)], [(''n'', JNum 12)],
           [(''n'', JNum 13)], [(''n'', JNum 14)]]"
proof -
  let ?c = "\<lparr>ctx_id = ''s1'', created = Some 0, updated = Some 0,
            ctx_data = [(''n'', JNum 0)], history = [], steps = []\<rparr>"
  have stored: "contexts counting_manager ''s1'' = Some ?c"
    by (simp add: counting_manager_def createContext_def new_manager_def spread_def
          set_property_def key_eval Let_def)
  have ident: "''s1'' \<noteq> []"
    by simp
  have maxlen: "maxHistoryLength counting_manager = 10"
    by (simp add: counting_manager_def createContext_def new_manager_def Let_def)
  have keys: "js_object (ctx_data ?c)"
    by (simp add: js_object_def)
  have len: "length counting_updates = 15"
    by (simp add: counting_updates_def)
  have snaps: "map snap_data (drop 5 (pre_update_snapshots ''s1'' counting_updates counting_manager)) =
      [[(''n'', JNum 5)], [(''n'', JNum 6)], [(''n'', JNum 7)], [(''n'', JNum 8)],
       [(''n'', JNum 9)], [(''n'', JNum 10)], [(''n'', JNum 11)], [(''n'', JNum 12)],
       [(''n'', JNum 13)], [(''n'', JNum 14)]]"
    by code_simp
  from history_bounded_oldest_first [OF stored ident keys, of counting_updates]
  obtain c' where c': "contexts (updates ''s1'' counting_updates counting_manager) ''s1'' = Some c'"
    and hist: "history c' = drop 5 (pre_update_snapshots ''s1'' counting_updates counting_manager)"
    using maxlen len by auto
  have "length (history c') = 10"
    using hist len by (simp add: pre_update_snapshots_def)
  then show ?thesis
    using c' hist snaps by simp
qed
section \<open>Properties of the client\<close>

subsection \<open>Evaluating the event loop on a concrete state\<close>

lemma drain_empty: "microtasks c = [] \<Longrightarrow> drain c = c"
  by (subst drain.simps) simp

lemma drain_step: "microtasks c = t # ts \<Longrightarrow> drain c = drain (run_task t (c\<lparr>microtasks := ts\<rparr>))"
  by (subst drain.simps) simp

lemmas client_eval =
  default_client_def new_client_def or_default_def run_def run_job_def callback_def reactions_def
  emit_error_def parse_failure_def connect_def act_def queue_def
  socket_event_def settle_connect_def drain_empty drain_step run_task_def sendCommand_def send_now_def
  envelope_def Let_def handleClose_def handleError_def attemptReconnect_def timer_fires_def
  reconnect_timer_fires_def probe_finished_def client_handleMessage_def welcome_test_def by_id_def
  by_name_def answer_def clear_timeout_def settle_command_def error_of_def

lemma open_client_eval:
  "open_client =
     \<lparr>url = ''ws://localhost:8765'', timeout = 30000, maxReconnectAttempts = 3,
      reconnectDelay = 2000, ws = Some 1, connected = True,
      reconnectAttempts = 0, intentionalClose = False, pendingCommands = [],
      contextId = None, sequenceId = 0, availableResources = Map.empty, error_listener = True,
      sockets = [1 \<mapsto> \<lparr>readyState = OPEN, once_open = False, once_error = True,
                        connect_promise = None\<rparr>],
      timers = [], microtasks = [], effects = [NewSocket 1 ''ws://localhost:8765''],
      crashed = False\<rparr>"
  by (simp add: open_client_def client_eval)

lemma unheard_client_eval:
  "unheard_client = open_client\<lparr>error_listener := False\<rparr>"
  by (simp add: unheard_client_def open_client_def client_eval)

lemma two_pending_eval:
  "two_pending =
     \<lparr>url = ''ws://localhost:8765'', timeout = 30000, maxReconnectAttempts = 3,
      reconnectDelay = 2000, ws = Some 1, connected = True,
      reconnectAttempts = 0, intentionalClose = False,
      pendingCommands =
        [(''req-A'', \<lparr>p_command = ''generate-tasks'', p_params = JObj [], timeoutId = 1,
                      sentAt = 1000, awaited_by = Direct\<rparr>),
         (''req-B'', \<lparr>p_command = ''list-tools'', p_params = JObj [], timeoutId = 2,
                      sentAt = 1001, awaited_by = Direct\<rparr>)],
      contextId = None, sequenceId = 2, availableResources = Map.empty, error_listener = True,
      sockets = [1 \<mapsto> \<lparr>readyState = OPEN, once_open = False, once_error = True,
                        connect_promise = None\<rparr>],
      timers = [CommandTimer 1 ''req-A'' 30000, CommandTimer 2 ''req-B'' 5000],
      microtasks = [],
      effects =
        [NewSocket 1 ''ws://localhost:8765'',
         SetTimeout (CommandTimer 1 ''req-A'' 30000),
         Send 1 (JObj [(''id'', JStr ''req-A''), (''command'', JStr ''generate-tasks''),
                       (''params'', JObj []), (''context'', JNull), (''sequence'', JNum 0)]),
         SetTimeout (CommandTimer 2 ''req-B'' 5000),
         Send 1 (JObj [(''id'', JStr ''req-B''), (''command'', JStr ''list-tools''),
                       (''params'', JObj []), (''context'', JNull), (''sequence'', JNum 1)])],
      crashed = False\<rparr>"
  by (simp add: two_pending_def open_client_eval client_eval)

subsection \<open>Disconnecting\<close>

lemma delete_filter: "AList.delete k xs = filter (\<lambda>e. fst e \<noteq> k) xs"
  by (induction xs) auto

lemma reject_closed_fields:
  "pendingCommands (reject_closed e c) = AList.delete (fst e) (pendingCommands c)"
  "effects (reject_closed e c) = effects c @ closed_effects [e]"
  "connected (reject_closed e c) = connected c"
  "ws (reject_closed e c) = ws c"
  "sockets (reject_closed e c) = sockets c"
  "intentionalClose (reject_closed e c) = intentionalClose c"
  by (simp_all add: reject_closed_def clear_timeout_def settle_command_def act_def queue_def
        Let_def closed_effects_def)

lemma fold_reject_closed:
  "pendingCommands (fold reject_closed es c) = filter (\<lambda>e. fst e \<notin> fst ` set es) (pendingCommands c)
   \<and> effects (fold reject_closed es c) = effects c @ closed_effects es
   \<and> connected (fold reject_closed es c) = connected c
   \<and> ws (fold reject_closed es c) = ws c
   \<and> sockets (fold reject_closed es c) = sockets c
   \<and> intentionalClose (fold reject_closed es c) = intentionalClose c"
proof (induction es arbitrary: c)
  case Nil
  then show ?case by (simp add: closed_effects_def)
next
  case (Cons e es)
  have "filter (\<lambda>x. fst x \<notin> fst ` set es) (filter (\<lambda>x. fst x \<noteq> fst e) (pendingCommands c)) =
        filter (\<lambda>x. fst x \<notin> fst ` set (e # es)) (pendingCommands c)"
    by (auto intro: filter_cong)
  then show ?case
    using Cons.IH [of "reject_closed e c"]
    by (simp add: reject_closed_fields delete_filter closed_effects_def)
qed

text \<open>
  Claim C5. On a connected client \<^verbatim>\<open>disconnect(reason)\<close> empties the pending map; for each
  pending command, in order, it clears the timeout and rejects the promise with
  \<^verbatim>\<open>Connection closed\<close>, then it closes the socket if that is open. The close event that
  follows marks the client disconnected, emits \<^verbatim>\<open>disconnected\<close> and resets the intentional
  flag, and does nothing else: no reconnection attempt is counted, scheduled or announced.
\<close>

theorem disconnect_rejects_all_pending:
  assumes "connected c" and "ws c = Some s"
  shows "pendingCommands (disconnect reason c) = []
    \<and> effects (disconnect reason c) =
        effects c @ closed_effects (pendingCommands c) @
        (if map_option readyState (sockets c s) = Some OPEN then [CloseSocket s 1000 reason] else [])
    \<and> handleClose code why (disconnect reason c) =
        (disconnect reason c)\<lparr>connected := False, intentionalClose := False,
           effects := effects (disconnect reason c) @ [Emit (EvDisconnected code why)]\<rparr>"
proof -
  let ?c1 = "fold reject_closed (pendingCommands c) (c\<lparr>intentionalClose := True\<rparr>)"
  note f = fold_reject_closed [of "pendingCommands c" "c\<lparr>intentionalClose := True\<rparr>"]
  have p: "pendingCommands ?c1 = []"
    using f by (simp add: filter_empty_conv)
  have e: "effects ?c1 = effects c @ closed_effects (pendingCommands c)"
    using f by simp
  have i: "intentionalClose ?c1" and s: "sockets ?c1 = sockets c"
    using f by simp_all
  have d: "disconnect reason c =
      (case sockets c s of
         Some sk \<Rightarrow> if readyState sk = OPEN
                    then act [CloseSocket s 1000 reason]
                           (?c1\<lparr>sockets := (sockets ?c1)(s \<mapsto> sk\<lparr>readyState := CLOSING\<rparr>)\<rparr>)
                    else ?c1
       | None \<Rightarrow> ?c1)"
    using assms by (simp add: disconnect_def Let_def s)
  have "pendingCommands (disconnect reason c) = []"
    using p by (simp add: d act_def split: option.splits)
  moreover have "effects (disconnect reason c) =
        effects c @ closed_effects (pendingCommands c) @
        (if map_option readyState (sockets c s) = Some OPEN then [CloseSocket s 1000 reason] else [])"
    using e by (simp add: d act_def split: option.splits)
  moreover have "intentionalClose (disconnect reason c)"
    using i by (simp add: d act_def split: option.splits)
  then have "handleClose code why (disconnect reason c) =
        (disconnect reason c)\<lparr>connected := False, intentionalClose := False,
           effects := effects (disconnect reason c) @ [Emit (EvDisconnected code why)]\<rparr>"
    by (simp add: handleClose_def act_def Let_def)
  ultimately show ?thesis by simp
qed

text \<open>The client with two commands outstanding, disconnected and then closed.\<close>

theorem disconnect_rejects_all_pending_witness:
  "pendingCommands (disconnect ''done'' two_pending) = []
   \<and> effects (disconnect ''done'' two_pending) =
       effects two_pending @
       [ClearTimeout 1, Settle ''req-A'' (Rejected (Message ''Connection closed'')),
        ClearTimeout 2, Settle ''req-B'' (Rejected (Message ''Connection closed'')),
        CloseSocket 1 1000 ''done'']
   \<and> reconnectAttempts (handleClose 1000 ''done'' (disconnect ''done'' two_pending)) = 0
   \<and> timers (handleClose 1000 ''done'' (disconnect ''done'' two_pending)) = []
   \<and> \<not> intentionalClose (handleClose 1000 ''done'' (disconnect ''done'' two_pending))"
proof -
  have conn: "connected two_pending" and sock: "ws two_pending = Some 1"
    by (simp_all add: two_pending_eval)
  have tm: "timers (disconnect ''done'' two_pending) = []"
    and ra: "reconnectAttempts (disconnect ''done'' two_pending) = 0"
    by (simp_all add: two_pending_eval disconnect_def reject_closed_def clear_timeout_def
          settle_command_def act_def queue_def Let_def)
  show ?thesis
    using disconnect_rejects_all_pending [OF conn sock, of "''done''" 1000 "''done''"] tm ra
    by (simp add: two_pending_eval closed_effects_def)
qed

subsection \<open>Matching a response to a pending command\<close>

text \<open>
  Claim C2 says that the match by command name is tried only for a payload without an
  \<^verbatim>\<open>id\<close>. The code at a payload that has one: with \<^verbatim>\<open>req-A\<close> (\<^verbatim>\<open>generate-tasks\<close>) and
  \<^verbatim>\<open>req-B\<close> pending, the late response to \<^verbatim>\<open>req-0\<close>, whose \<^verbatim>\<open>id\<close> matches no pending
  command, resolves \<^verbatim>\<open>req-A\<close> by its command name, clears the timeout of \<^verbatim>\<open>req-A\<close> and
  deletes it.
\<close>

theorem by_name_with_id:
  "effects (client_handleMessage ''ctx-1'' (Inr late_response) two_pending) =
     effects two_pending @ [ClearTimeout 1, Settle ''req-A'' (Resolved late_response)]
   \<and> map fst (pendingCommands (client_handleMessage ''ctx-1'' (Inr late_response) two_pending)) = [''req-B'']"
  by (simp add: two_pending_eval late_response_def client_eval)

subsection \<open>Close and error events\<close>

lemma close_and_error_leave_pending:
  "pendingCommands (handleClose code why c) = pendingCommands c"
  "pendingCommands (handleError msg c) = pendingCommands c"
  by (simp_all add: handleClose_def handleError_def emit_error_def attemptReconnect_def act_def
        Let_def)

text \<open>
  On a client that has no listener for \<^verbatim>\<open>error\<close> the first error of a socket is thrown by
  \<^verbatim>\<open>emit\<close> and ends the process: nothing is rejected, no reconnection is scheduled, and no
  later turn runs.
\<close>

lemma error_without_listener:
  assumes "\<not> error_listener c" and "\<not> crashed c" and "sockets c s = Some sk"
  shows "crashed (socket_event s (SockError msg) c)"
    and "effects (socket_event s (SockError msg) c) = effects c @ [Uncaught (Message msg)]"
    and "pendingCommands (socket_event s (SockError msg) c) = pendingCommands c"
    and "timers (socket_event s (SockError msg) c) = timers c"
  using assms
  by (simp_all add: socket_event_def handleError_def emit_error_def settle_connect_def act_def
        queue_def Let_def split: option.splits)

lemma run_crashed: "crashed c \<Longrightarrow> run js c = c"
  unfolding run_def by (induction js) (simp_all add: run_job_def)

lemma unheard_client_refused:
  "effects (run [SocketEvents 1 [SockError ''read ECONNRESET'', SockClose 1006 []]] unheard_client) =
     [NewSocket 1 ''ws://localhost:8765'', Uncaught (Message ''read ECONNRESET'')]
   \<and> crashed (run [SocketEvents 1 [SockError ''read ECONNRESET'', SockClose 1006 []]] unheard_client)"
  by (simp add: unheard_client_eval open_client_eval client_eval)

text \<open>
  Claim C3 says that a close or an error of the socket rejects and removes every pending
  command. The code with two commands pending, on a client whose \<^verbatim>\<open>error\<close> event has a
  listener: after an unintentional close, and after a socket error, both are still pending
  and neither promise is settled; the client emits the event and schedules a reconnection.
\<close>

theorem close_keeps_pending:
  "pendingCommands (run [SocketEvents 1 [SockClose 1006 []]] two_pending) = pendingCommands two_pending
   \<and> effects (run [SocketEvents 1 [SockClose 1006 []]] two_pending) =
       effects two_pending @
       [Emit (EvDisconnected 1006 []), Emit (EvReconnecting 1 3), SetTimeout (ReconnectTimer 2000)]
   \<and> pendingCommands (run [SocketEvents 1 [SockError ''read ECONNRESET'']] two_pending) = pendingCommands two_pending
   \<and> effects (run [SocketEvents 1 [SockError ''read ECONNRESET'']] two_pending) =
       effects two_pending @
       [Emit (EvError (Message ''read ECONNRESET'')), Emit (EvReconnecting 1 3), SetTimeout (ReconnectTimer 2000)]"
  by (simp add: two_pending_eval client_eval)

text \<open>
  Claim C4 says that \<^verbatim>\<open>reconnect_failed\<close> comes after three attempts, and no attempt after
  it. The code with \<^verbatim>\<open>maxReconnectAttempts = 3\<close> and \<^verbatim>\<open>reconnectDelay = 2000\<close>, on a
  client whose \<^verbatim>\<open>error\<close> event has a listener: the refusal
  of the first attempt calls \<^verbatim>\<open>_attemptReconnect\<close> three times (from \<^verbatim>\<open>_handleError\<close>, from
  \<^verbatim>\<open>_handleClose\<close> and from the rejected promise of \<^verbatim>\<open>connect\<close>), which sets the timers of
  4000 and 6000 ms at once and emits \<^verbatim>\<open>reconnect_failed\<close>; both timers fire later and open
  two more sockets, and \<^verbatim>\<open>reconnect_failed\<close> is emitted seven times in all.
\<close>

theorem reconnect_trace:
  "effects (run refused open_client) =
     [NewSocket 1 ''ws://localhost:8765'',
      Emit (EvDisconnected 1006 []), Emit (EvReconnecting 1 3), SetTimeout (ReconnectTimer 2000),
      NewSocket 2 ''ws://localhost:8765'',
      Emit (EvError (Message ''connect ECONNREFUSED 127.0.0.1:8765'')),
      Emit (EvReconnecting 2 3), SetTimeout (ReconnectTimer 4000),
      Emit (EvDisconnected 1006 []), Emit (EvReconnecting 3 3), SetTimeout (ReconnectTimer 6000),
      Emit EvReconnectFailed]
   \<and> timers (run refused open_client) = [ReconnectTimer 4000, ReconnectTimer 6000]
   \<and> effects (run (refused @ refused_again) open_client) =
       effects (run refused open_client) @
       [ProbePorts, NewSocket 3 ''ws://localhost:8765'',
        Emit (EvError (Message ''connect ECONNREFUSED 127.0.0.1:8765'')), Emit EvReconnectFailed,
        Emit (EvDisconnected 1006 []), Emit EvReconnectFailed, Emit EvReconnectFailed,
        ProbePorts, NewSocket 4 ''ws://localhost:8765'',
        Emit (EvError (Message ''connect ECONNREFUSED 127.0.0.1:8765'')), Emit EvReconnectFailed,
        Emit (EvDisconnected 1006 []), Emit EvReconnectFailed, Emit EvReconnectFailed]"
  by (simp add: open_client_eval refused_def refused_again_def client_eval)

subsection \<open>An unknown command, from the request to the rejection\<close>

text \<open>
  Claim C6. A message that names a command \<open>cmd\<close> (a non-empty name) that is not
  registered is answered with its \<^verbatim>\<open>id\<close>, if it has one, the error
  \<^verbatim>\<open>{code: 'unknown_command', message: 'Unknown command: cmd'}\<close> and a timestamp. When a
  connected client sends a request for \<open>cmd\<close> (under the identifier that \<^verbatim>\<open>uuidv4()\<close>
  returns, which is not empty) and receives the answer to its envelope, it clears the
  timeout of the request, rejects its promise with the message \<^verbatim>\<open>Unknown command: cmd\<close>
  and deletes the request from the pending map.
\<close>

theorem unknown_command_rejected:
  assumes "tools cmd = None" and "cmd \<noteq> []"
    and "map_of msg ''command'' = Some (JStr cmd)"
    and "connected c" and "ws c = Some s"
    and "rq_command rq = cmd" and "new_id sp \<noteq> []"
  shows "handleMessage tools now (Inr (JObj msg)) =
           (case map_of msg ''id'' of Some i \<Rightarrow> [(''id'', i)] | None \<Rightarrow> []) @
           [(''error'', unknown_error cmd), (''timestamp'', JStr now)]
    \<and> effects (sendCommand rq sp who c) =
        effects c @ [SetTimeout (CommandTimer (new_timer sp) (new_id sp) (or_default (rq_timeout rq) (timeout c))),
                     Send s (JObj (envelope rq sp c))]
    \<and> effects (client_handleMessage fresh
                  (Inr (JObj (handleMessage tools now (Inr (JObj (envelope rq sp c))))))
                  (sendCommand rq sp who c)) =
        effects (sendCommand rq sp who c) @
        [ClearTimeout (new_timer sp),
         Settle (new_id sp) (Rejected (Message (''Unknown command: '' @ cmd)))]
    \<and> map_of (pendingCommands (client_handleMessage fresh
                  (Inr (JObj (handleMessage tools now (Inr (JObj (envelope rq sp c))))))
                  (sendCommand rq sp who c))) (new_id sp) = None"
proof -
  have server: "handleMessage tools now (Inr (JObj m)) =
           (case map_of m ''id'' of Some i \<Rightarrow> [(''id'', i)] | None \<Rightarrow> []) @
           [(''error'', unknown_error cmd), (''timestamp'', JStr now)]"
    if "map_of m ''command'' = Some (JStr cmd)" for m
    using that assms(1,2)
    by (simp add: handleMessage_def stringify_def List.map_filter_simps unknown_error_def
          split: option.splits)
  have sent: "sendCommand rq sp who c = send_now rq sp who c"
    using assms(4) by (simp add: sendCommand_def)
  have r: "handleMessage tools now (Inr (JObj (envelope rq sp c))) =
           [(''id'', JStr (new_id sp)), (''error'', unknown_error cmd), (''timestamp'', JStr now)]"
    using server [of "envelope rq sp c"] assms(6) by (simp add: envelope_def)
  have p: "map_of (pendingCommands (send_now rq sp who c)) (new_id sp) =
      Some \<lparr>p_command = rq_command rq, p_params = rq_params rq, timeoutId = new_timer sp,
            sentAt = clock sp, awaited_by = who\<rparr>"
    by (simp add: send_now_def Let_def act_def update_Some_unfold)
  have del: "map_of (AList.delete k xs) k = None" for k and xs :: "(string \<times> pending) list"
    by (simp add: delete_conv')
  show ?thesis
    unfolding sent r using assms(2,5,7) server [OF assms(3)] p
    by (simp add: client_handleMessage_def welcome_test_def by_id_def answer_def clear_timeout_def
          settle_command_def error_of_def act_def queue_def Let_def unknown_error_def del)
       (simp add: send_now_def Let_def act_def envelope_def)
qed

text \<open>The scenario \<^verbatim>\<open>sendCommand('does-not-exist', {})\<close>.\<close>

theorem unknown_command_rejected_witness:
  "effects (client_handleMessage ''ctx-1''
      (Inr (JObj (handleMessage echo_tools ''2025-01-01T00:00:00.000Z''
                    (Inr (JObj (envelope unknown_request first_supplies open_client))))))
      (sendCommand unknown_request first_supplies Direct open_client)) =
   effects (sendCommand unknown_request first_supplies Direct open_client) @
   [ClearTimeout 1, Settle ''req-1'' (Rejected (Message ''Unknown command: does-not-exist''))]"
proof -
  have a1: "echo_tools ''does-not-exist'' = None"
    by (simp add: echo_tools_def registerTool_def)
  have a2: "''does-not-exist'' \<noteq> []" by simp
  have a3: "map_of (envelope unknown_request first_supplies open_client) ''command'' = Some (JStr ''does-not-exist'')"
    by (simp add: envelope_def unknown_request_def)
  have a4: "connected open_client" and a5: "ws open_client = Some 1"
    by (simp_all add: open_client_eval)
  have a6: "rq_command unknown_request = ''does-not-exist''"
    by (simp add: unknown_request_def)
  have a7: "new_id first_supplies \<noteq> []"
    by (simp add: first_supplies_def)
  note t = unknown_command_rejected [where tools = echo_tools and cmd = "''does-not-exist''"
        and msg = "envelope unknown_request first_supplies open_client" and c = open_client
        and s = 1 and rq = unknown_request and sp = first_supplies
        and now = "''2025-01-01T00:00:00.000Z''" and who = Direct and fresh = "''ctx-1''",
        OF a1 a2 a3 a4 a5 a6 a7]
  from t have e: "effects (client_handleMessage ''ctx-1''
      (Inr (JObj (handleMessage echo_tools ''2025-01-01T00:00:00.000Z''
                    (Inr (JObj (envelope unknown_request first_supplies open_client))))))
      (sendCommand unknown_request first_supplies Direct open_client)) =
   effects (sendCommand unknown_request first_supplies Direct open_client) @
   [ClearTimeout (new_timer first_supplies),
    Settle (new_id first_supplies) (Rejected (Message (''Unknown command: '' @ ''does-not-exist'')))]"
    by blast
  have n: "new_timer first_supplies = 1" "new_id first_supplies = ''req-1''"
    by (simp_all add: first_supplies_def)
  show ?thesis
    unfolding e n by simp
qed

subsection \<open>The resource cache\<close>

lemma served_act [simp]: "served u v (act es c) = served u v c"
  by (simp add: served_def awaiting_def act_def)

lemma served_queue: "task_caller t \<noteq> Some (AwaitGetResource u) \<Longrightarrow> served u v c \<Longrightarrow> served u v (queue t c)"
  by (auto simp: served_def awaiting_def queue_def)

lemma ran_upd_subset: "sk \<in> ran (m(s \<mapsto> x)) \<Longrightarrow> sk = x \<or> sk \<in> ran m"
  by (auto simp: ran_def split: if_splits)

lemma served_connect:
  "waiter_caller w \<noteq> Some (AwaitGetResource u) \<Longrightarrow> served u v c \<Longrightarrow> served u v (connect sock w c)"
  by (auto simp: connect_def served_queue split: sum.splits)
     (auto simp: served_def awaiting_def act_def dest!: ran_upd_subset)

lemma served_settle_connect: "served u v c \<Longrightarrow> served u v (settle_connect s res c)"
  by (auto simp: settle_connect_def served_def awaiting_def queue_def ran_def
           split: option.splits dest!: ran_upd_subset)

lemma served_attemptReconnect [simp]: "served u v (attemptReconnect c) = served u v c"
  by (simp add: attemptReconnect_def Let_def) (simp add: served_def awaiting_def act_def)

lemma served_flags [simp]:
  "served u v (c\<lparr>crashed := x\<rparr>) = served u v c"
  "served u v (c\<lparr>error_listener := x\<rparr>) = served u v c"
  by (simp_all add: served_def awaiting_def)

lemma served_emit_error [simp]: "served u v (emit_error e c) = served u v c"
  by (simp add: emit_error_def)

lemma served_handleError [simp]: "served u v (handleError msg c) = served u v c"
  by (simp add: handleError_def Let_def)

lemma served_handleClose [simp]: "served u v (handleClose code why c) = served u v c"
  by (simp add: handleClose_def Let_def) (simp add: served_def awaiting_def act_def)

lemma served_reconnect_timer_fires: "served u v c \<Longrightarrow> served u v (reconnect_timer_fires sock c)"
  by (simp add: reconnect_timer_fires_def served_connect)

lemma served_url [simp]: "served u v (c\<lparr>url := x\<rparr>) = served u v c"
  by (simp add: served_def awaiting_def)

lemma served_timers [simp]: "served u v (c\<lparr>timers := x\<rparr>) = served u v c"
  by (simp add: served_def awaiting_def)

lemma served_probe_finished: "served u v c \<Longrightarrow> served u v (probe_finished res sock c)"
  by (simp add: probe_finished_def served_connect split: sum.splits)

lemma served_settle_command:
  "who \<noteq> AwaitGetResource u \<Longrightarrow> served u v c \<Longrightarrow> served u v (settle_command i who res c)"
  by (simp add: settle_command_def served_queue)

lemma served_clear_timeout [simp]: "served u v (clear_timeout h c) = served u v c"
  by (simp add: clear_timeout_def)

lemma served_delete: "served u v c \<Longrightarrow> served u v (c\<lparr>pendingCommands := AList.delete i (pendingCommands c)\<rparr>)"
  by (auto simp: served_def awaiting_def delete_filter)

lemma in_update: "e \<in> set (AList.update k x xs) \<Longrightarrow> e = (k, x) \<or> e \<in> set xs"
  by (induction xs) (auto split: if_splits)

lemma served_send_now:
  "who \<noteq> AwaitGetResource u \<Longrightarrow> served u v c \<Longrightarrow> served u v (send_now rq sp who c)"
  by (auto simp: send_now_def Let_def served_def awaiting_def act_def dest!: in_update)

lemma served_sendCommand:
  "who \<noteq> AwaitGetResource u \<Longrightarrow> served u v c \<Longrightarrow> served u v (sendCommand rq sp who c)"
  by (simp add: sendCommand_def served_send_now served_connect)

lemma pending_not_awaiting:
  "served u v c \<Longrightarrow> entry \<in> set (pendingCommands c) \<Longrightarrow> awaited_by (snd entry) \<noteq> AwaitGetResource u"
  by (auto simp: served_def awaiting_def)

lemma map_of_pending:
  "served u v c \<Longrightarrow> map_of (pendingCommands c) i = Some p \<Longrightarrow> awaited_by p \<noteq> AwaitGetResource u"
  by (auto dest!: map_of_SomeD pending_not_awaiting)

lemma served_command_timer_fires: "served u v c \<Longrightarrow> served u v (command_timer_fires i ms c)"
  by (auto simp: command_timer_fires_def served_settle_command served_delete map_of_pending
           split: option.splits)

lemma served_reject_closed:
  "awaited_by (snd e) \<noteq> AwaitGetResource u \<Longrightarrow> served u v c \<Longrightarrow> served u v (reject_closed e c)"
  by (simp add: reject_closed_def Let_def served_settle_command served_delete)

lemma served_fold_reject_closed:
  "\<forall>e \<in> set es. awaited_by (snd e) \<noteq> AwaitGetResource u \<Longrightarrow> served u v c \<Longrightarrow>
   served u v (fold reject_closed es c)"
  by (induction es arbitrary: c) (auto simp: served_reject_closed)

lemma served_intentional [simp]: "served u v (c\<lparr>intentionalClose := x\<rparr>) = served u v c"
  by (simp add: served_def awaiting_def)

lemma served_socket_state:
  "sockets c s = Some sk \<Longrightarrow> connect_promise sk' = connect_promise sk \<Longrightarrow> served u v c \<Longrightarrow>
   served u v (c\<lparr>sockets := (sockets c)(s \<mapsto> sk')\<rparr>)"
  by (auto simp: served_def awaiting_def dest!: ran_upd_subset) (auto simp: ran_def)

lemma served_disconnect: "served u v c \<Longrightarrow> served u v (disconnect reason c)"
proof -
  assume a: "served u v c"
  let ?c1 = "fold reject_closed (pendingCommands c) (c\<lparr>intentionalClose := True\<rparr>)"
  have c1: "served u v ?c1"
    using a by (intro served_fold_reject_closed) (auto dest: pending_not_awaiting)
  show ?thesis
    using a c1 by (auto simp: disconnect_def Let_def served_socket_state split: option.splits)
qed

lemma served_answer:
  "awaited_by p \<noteq> AwaitGetResource u \<Longrightarrow> served u v c \<Longrightarrow> served u v (answer i p response c)"
  by (auto simp: answer_def Let_def served_settle_command served_delete split: option.splits)

lemma by_id_pending: "by_id response c = Some (i, p) \<Longrightarrow> map_of (pendingCommands c) i = Some p"
  by (auto simp: by_id_def split: option.splits json.splits if_splits)

lemma by_name_pending: "by_name response c = Some (i, p) \<Longrightarrow> (i, p) \<in> set (pendingCommands c)"
  by (auto simp: by_name_def find_Some_iff split: if_splits)

lemma served_contextId [simp]: "served u v (c\<lparr>contextId := x\<rparr>) = served u v c"
  by (simp add: served_def awaiting_def)

lemma served_client_handleMessage:
  assumes "served u v c"
  shows "served u v (client_handleMessage fresh data c)"
proof (cases data)
  case (Inl msg)
  then show ?thesis using assms by (simp add: client_handleMessage_def parse_failure_def)
next
  case (Inr response)
  show ?thesis
  proof (cases "response = JNull")
    case True
    then show ?thesis using assms Inr by (simp add: client_handleMessage_def parse_failure_def)
  next
    case False
    show ?thesis
    proof (cases "welcome_test response")
      case IsWelcome
      then show ?thesis
        using assms Inr False by (simp add: client_handleMessage_def Let_def)
    next
      case (Raises msg)
      then show ?thesis
        using assms Inr False by (simp add: client_handleMessage_def parse_failure_def)
    next
      case NotWelcome
      show ?thesis
      proof (cases "by_id response c")
        case (Some entry)
        obtain i p where entry: "entry = (i, p)" by (cases entry)
        with Some have "awaited_by p \<noteq> AwaitGetResource u"
          using assms by (auto dest!: by_id_pending map_of_pending)
        then show ?thesis
          using assms Inr False NotWelcome Some entry
          by (simp add: client_handleMessage_def served_answer)
      next
        case None
        show ?thesis
        proof (cases "by_name response c")
          case (Some entry)
          obtain i p where entry: "entry = (i, p)" by (cases entry)
          with Some have "awaited_by p \<noteq> AwaitGetResource u"
            using assms by (auto dest!: by_name_pending pending_not_awaiting)
          then show ?thesis
            using assms Inr False NotWelcome None Some entry
            by (simp add: client_handleMessage_def served_answer)
        next
          case None2: None
          then show ?thesis
            using assms Inr False NotWelcome None
            by (simp add: client_handleMessage_def)
        qed
      qed
    qed
  qed
qed

lemma served_getResource:
  assumes "served u v c"
  shows "served u v (getResource u' sp c)"
proof (cases "u' = u")
  case True
  then show ?thesis
    using assms by (simp add: getResource_def served_def [of u v c])
next
  case False
  then show ?thesis
    using assms by (auto simp: getResource_def Let_def served_sendCommand split: option.splits)
qed

lemma served_getResource_resume:
  "u' \<noteq> u \<Longrightarrow> served u v c \<Longrightarrow> served u v (getResource_resume u' res c)"
  by (auto simp: getResource_resume_def split: settled.splits option.splits)
     (auto simp: served_def awaiting_def)

lemma note_listed_keeps: "res u = Some v \<Longrightarrow> fold note_listed uris res u = Some v"
  by (induction uris arbitrary: res) (auto simp: note_listed_def split: json.splits option.splits)

lemma served_listResources_resume: "served u v c \<Longrightarrow> served u v (listResources_resume res c)"
  by (auto simp: listResources_resume_def split: settled.splits option.splits json.splits)
     (auto simp: served_def awaiting_def note_listed_keeps)

lemma served_listResources: "served u v c \<Longrightarrow> served u v (listResources options sp c)"
  by (simp add: listResources_def served_sendCommand)

lemma served_microtasks_tl:
  "microtasks c = t # ts \<Longrightarrow> served u v c \<Longrightarrow>
   served u v (c\<lparr>microtasks := ts\<rparr>) \<and> task_caller t \<noteq> Some (AwaitGetResource u)"
  by (auto simp: served_def awaiting_def)

lemma served_run_task:
  "task_caller t \<noteq> Some (AwaitGetResource u) \<Longrightarrow> served u v c \<Longrightarrow> served u v (run_task t c)"
  by (auto simp: run_task_def served_send_now served_settle_command served_getResource_resume
        served_listResources_resume
      split: task.splits waiter.splits option.splits caller.splits)

lemma served_drain: "served u v c \<Longrightarrow> served u v (drain c)"
proof (induction c rule: drain.induct)
  case (1 c)
  show ?case
  proof (cases "microtasks c")
    case Nil
    then show ?thesis using "1.prems" by (simp add: drain_empty)
  next
    case (Cons t ts)
    from served_microtasks_tl [OF Cons "1.prems"]
    have "served u v (run_task t (c\<lparr>microtasks := ts\<rparr>))"
      by (simp add: served_run_task)
    then show ?thesis
      using "1.IH" [OF Cons] Cons by (simp add: drain_step)
  qed
qed

lemma served_connected [simp]:
  "served u v (c\<lparr>connected := x\<rparr>) = served u v c"
  "served u v (c\<lparr>reconnectAttempts := n\<rparr>) = served u v c"
  by (simp_all add: served_def awaiting_def)

lemma served_socket_event: "served u v c \<Longrightarrow> served u v (socket_event s ev c)"
  by (auto simp: socket_event_def served_socket_state served_client_handleMessage
      intro!: served_settle_connect
      split: option.splits sock_event.splits)

lemma served_fold_socket_event: "served u v c \<Longrightarrow> served u v (fold (socket_event s) evs c)"
  by (induction evs arbitrary: c) (auto simp: served_socket_event)

lemma served_timer_fires: "served u v c \<Longrightarrow> served u v (timer_fires t sock c)"
  by (auto simp: timer_fires_def served_command_timer_fires served_reconnect_timer_fires
      split: timer.splits)

lemma served_callback: "served u v c \<Longrightarrow> served u v (callback j c)"
  by (auto simp: callback_def served_connect served_disconnect served_sendCommand served_getResource
        served_listResources served_fold_socket_event served_timer_fires served_probe_finished
      split: job.splits)

lemma served_run_job: "served u v c \<Longrightarrow> served u v (run_job j c)"
  by (simp add: run_job_def reactions_def served_callback served_drain del: drain.simps)

lemma served_run: "served u v c \<Longrightarrow> served u v (run js c)"
  unfolding run_def by (induction js arbitrary: c) (auto simp: served_run_job)

text \<open>What leaves the map of the resources as it is, and what keeps a cached URI cached.\<close>

lemma resources_act [simp]: "availableResources (act es c) = availableResources c"
  by (simp add: act_def)

lemma resources_queue [simp]: "availableResources (queue t c) = availableResources c"
  by (simp add: queue_def)

lemma resources_connect [simp]: "availableResources (connect sock w c) = availableResources c"
  by (simp add: connect_def split: sum.splits)

lemma resources_settle_connect [simp]:
  "availableResources (settle_connect s res c) = availableResources c"
  by (simp add: settle_connect_def split: option.splits)

lemma resources_attemptReconnect [simp]: "availableResources (attemptReconnect c) = availableResources c"
  by (simp add: attemptReconnect_def Let_def)

lemma resources_emit_error [simp]: "availableResources (emit_error e c) = availableResources c"
  by (simp add: emit_error_def)

lemma resources_handleError [simp]: "availableResources (handleError msg c) = availableResources c"
  by (simp add: handleError_def Let_def)

lemma resources_handleClose [simp]: "availableResources (handleClose code why c) = availableResources c"
  by (simp add: handleClose_def Let_def)

lemma resources_reconnect_timer_fires [simp]:
  "availableResources (reconnect_timer_fires sock c) = availableResources c"
  by (simp add: reconnect_timer_fires_def)

lemma resources_probe_finished [simp]:
  "availableResources (probe_finished res sock c) = availableResources c"
  by (simp add: probe_finished_def split: sum.splits)

lemma resources_settle_command [simp]:
  "availableResources (settle_command i who res c) = availableResources c"
  by (simp add: settle_command_def)

lemma resources_clear_timeout [simp]: "availableResources (clear_timeout h c) = availableResources c"
  by (simp add: clear_timeout_def)

lemma resources_send_now [simp]: "availableResources (send_now rq sp who c) = availableResources c"
  by (simp add: send_now_def Let_def)

lemma resources_sendCommand [simp]: "availableResources (sendCommand rq sp who c) = availableResources c"
  by (simp add: sendCommand_def)

lemma resources_command_timer_fires [simp]:
  "availableResources (command_timer_fires i ms c) = availableResources c"
  by (simp add: command_timer_fires_def split: option.splits)

lemma resources_reject_closed [simp]: "availableResources (reject_closed e c) = availableResources c"
  by (simp add: reject_closed_def Let_def)

lemma resources_fold_reject_closed [simp]:
  "availableResources (fold reject_closed es c) = availableResources c"
  by (induction es arbitrary: c) simp_all

lemma resources_disconnect [simp]: "availableResources (disconnect reason c) = availableResources c"
  by (simp add: disconnect_def Let_def split: option.splits)

lemma resources_answer [simp]: "availableResources (answer i p response c) = availableResources c"
  by (simp add: answer_def Let_def split: option.splits)

lemma resources_client_handleMessage [simp]:
  "availableResources (client_handleMessage fresh data c) = availableResources c"
  by (simp add: client_handleMessage_def parse_failure_def Let_def
        split: sum.splits greeting.splits option.splits prod.splits)

lemma resources_socket_event [simp]: "availableResources (socket_event s ev c) = availableResources c"
  by (simp add: socket_event_def split: option.splits sock_event.splits)

lemma resources_fold_socket_event [simp]:
  "availableResources (fold (socket_event s) evs c) = availableResources c"
  by (induction evs arbitrary: c) simp_all

lemma resources_timer_fires [simp]: "availableResources (timer_fires t sock c) = availableResources c"
  by (simp add: timer_fires_def split: timer.splits)

lemma resources_listResources [simp]:
  "availableResources (listResources options sp c) = availableResources c"
  by (simp add: listResources_def)

lemma resources_getResource [simp]: "availableResources (getResource u sp c) = availableResources c"
  by (simp add: getResource_def Let_def split: option.splits)

lemma cached_resources: "availableResources c' = availableResources c \<Longrightarrow> cached u c' = cached u c"
  by (simp add: cached_def)

lemma truthy_not_null: "truthy r \<Longrightarrow> r \<noteq> JNull"
  by auto

lemma cached_getResource_resume: "cached u c \<Longrightarrow> cached u (getResource_resume u' res c)"
  by (auto simp: getResource_resume_def cached_def truthy_not_null
           split: settled.splits option.splits)

lemma cached_listResources_resume: "cached u c \<Longrightarrow> cached u (listResources_resume res c)"
  by (auto simp: listResources_resume_def cached_def note_listed_keeps
           split: settled.splits option.splits json.splits)

lemma cached_run_task: "cached u c \<Longrightarrow> cached u (run_task t c)"
  by (auto simp: run_task_def cached_getResource_resume cached_listResources_resume
           cached_resources [of "attemptReconnect c" c] cached_resources [of "act es c" c for es]
           cached_resources [of "send_now rq sp who c" c for rq sp who]
           cached_resources [of "settle_command i who res c" c for i who res]
      split: task.splits waiter.splits option.splits caller.splits)

lemma cached_drain: "cached u c \<Longrightarrow> cached u (drain c)"
proof (induction c rule: drain.induct)
  case (1 c)
  show ?case
  proof (cases "microtasks c")
    case Nil
    then show ?thesis using "1.prems" by (simp add: drain_empty)
  next
    case (Cons t ts)
    have "cached u (c\<lparr>microtasks := ts\<rparr>)"
      using "1.prems" by (simp add: cached_def)
    then have "cached u (run_task t (c\<lparr>microtasks := ts\<rparr>))"
      by (rule cached_run_task)
    then show ?thesis
      using "1.IH" [OF Cons] Cons by (simp add: drain_step)
  qed
qed

lemma cached_callback: "cached u c \<Longrightarrow> cached u (callback j c)"
  by (cases j) (simp_all add: callback_def cached_def)

lemma cached_run_job: "cached u c \<Longrightarrow> cached u (run_job j c)"
  by (simp add: run_job_def reactions_def cached_callback cached_drain del: drain.simps)

lemma cached_run: "cached u c \<Longrightarrow> cached u (run js c)"
  unfolding run_def by (induction js arbitrary: c) (auto simp: cached_run_job)

text \<open>
  Claim C10, as the code has it. Once a content that is not \<^verbatim>\<open>null\<close> is cached for a URI,
  the URI stays cached with a content that is not \<^verbatim>\<open>null\<close> through every sequence of
  calls, socket events and timers, and every later \<^verbatim>\<open>getResource\<close> call for the URI
  resolves with the content that is cached then and does nothing else: it sends no command.
  That content is the one that was first cached unless a \<^verbatim>\<open>getResource\<close> call for the
  URI was still waiting for its response at that time.
\<close>

theorem cached_resource_served:
  assumes "availableResources c u = Some v" and "v \<noteq> JNull"
  shows "\<exists>v'. availableResources (run js c) u = Some v' \<and> v' \<noteq> JNull
    \<and> getResource u sp (run js c) = act [Return (AwaitGetResource u) (Resolved v')] (run js c)
    \<and> (AwaitGetResource u \<notin> awaiting c \<longrightarrow> v' = v)"
proof -
  have "cached u c"
    using assms by (simp add: cached_def)
  then have "cached u (run js c)"
    by (rule cached_run)
  then obtain v' where v': "availableResources (run js c) u = Some v'" "v' \<noteq> JNull"
    by (auto simp: cached_def split: option.splits)
  then have hit: "getResource u sp (run js c) =
      act [Return (AwaitGetResource u) (Resolved v')] (run js c)"
    by (simp add: getResource_def)
  have "v' = v" if "AwaitGetResource u \<notin> awaiting c"
  proof -
    have "served u v c"
      using assms that by (simp add: served_def)
    then have "served u v (run js c)"
      by (rule served_run)
    then show ?thesis
      using v' by (simp add: served_def)
  qed
  then show ?thesis
    using v' hit by blast
qed

text \<open>One answered call, then a listing that names the URI and a call for another URI.\<close>

lemmas resource_eval = client_eval getResource_def getResource_resume_def listResources_def
  listResources_resume_def note_listed_def resource_response_def supplies_for_def

lemma cached_client_eval:
  "cached_client =
     \<lparr>url = ''ws://localhost:8765'', timeout = 30000, maxReconnectAttempts = 3,
      reconnectDelay = 2000, ws = Some 1, connected = True,
      reconnectAttempts = 0, intentionalClose = False, pendingCommands = [],
      contextId = None, sequenceId = 1,
      availableResources = [''docs/readme'' \<mapsto> JStr ''v1''], error_listener = True,
      sockets = [1 \<mapsto> \<lparr>readyState = OPEN, once_open = False, once_error = True,
                        connect_promise = None\<rparr>],
      timers = [], microtasks = [],
      effects =
        [NewSocket 1 ''ws://localhost:8765'',
         SetTimeout (CommandTimer 1 ''req-1'' 30000),
         Send 1 (JObj [(''id'', JStr ''req-1''), (''command'', JStr ''get-resource''),
                       (''params'', JObj [(''uri'', JStr ''docs/readme'')]),
                       (''context'', JNull), (''sequence'', JNum 0)]),
         ClearTimeout 1,
         Settle ''req-1'' (Resolved (JObj [(''id'', JStr ''req-1''), (''success'', JBool True),
                                          (''resource'', JStr ''v1''),
                                          (''timestamp'', JStr ''2025-01-01T00:00:00.000Z'')])),
         Emit (EvResourceRetrieved ''docs/readme'' (JStr ''v1'')),
         Return (AwaitGetResource ''docs/readme'') (Resolved (JStr ''v1''))],
      crashed = False\<rparr>"
  by (simp add: cached_client_def open_client_eval resource_eval)

theorem cached_resource_served_witness:
  "availableResources (run later_jobs cached_client) ''docs/readme'' = Some (JStr ''v1'')
   \<and> getResource ''docs/readme'' (supplies_for ''req-4'' 4) (run later_jobs cached_client) =
       act [Return (AwaitGetResource ''docs/readme'') (Resolved (JStr ''v1''))]
         (run later_jobs cached_client)"
proof -
  have "availableResources cached_client ''docs/readme'' = Some (JStr ''v1'')"
    by (simp add: cached_client_eval)
  moreover have "JStr ''v1'' \<noteq> JNull"
    by simp
  moreover have "AwaitGetResource ''docs/readme'' \<notin> awaiting cached_client"
    by (simp add: cached_client_eval awaiting_def)
  ultimately show ?thesis
    using cached_resource_served [where c = cached_client and u = "''docs/readme''"
        and v = "JStr ''v1''" and js = later_jobs and sp = "supplies_for ''req-4'' 4"]
    by auto
qed

text \<open>
  Claim C10 as it is written fails when two calls for the URI are sent before the first
  response: the first call resolves and caches \<^verbatim>\<open>v1\<close>, the second response then writes
  \<^verbatim>\<open>v2\<close> over it, and a later call resolves with \<^verbatim>\<open>v2\<close>, not with the content that the
  first call cached.
\<close>

theorem cached_content_replaced_counterexample:
  "availableResources (run first_answered open_client) ''docs/readme'' = Some (JStr ''v1'')
   \<and> last (effects (run first_answered open_client)) =
       Return (AwaitGetResource ''docs/readme'') (Resolved (JStr ''v1''))
   \<and> effects (run (second_answered @ [CallGetResource ''docs/readme'' (supplies_for ''req-3'' 3)])
                open_client) =
       effects (run second_answered open_client) @
       [Return (AwaitGetResource ''docs/readme'') (Resolved (JStr ''v2''))]"
  by (simp add: first_answered_def second_answered_def open_client_eval resource_eval)


end
